theory Spec2Isabelle
  imports Main "HOL-Library.Sublist"
begin

section \<open>Platform values: strings, header collections, responses\<close>

text \<open>
  JavaScript strings are modelled as \<^typ>\<open>string\<close>: the list of the bytes of their UTF-8
  encoding, which is also what \<^verbatim>\<open>Buffer.from(s)\<close> yields.
  \<^verbatim>\<open>s.includes(p)\<close> is \<open>sublist p s\<close>, \<^verbatim>\<open>s.startsWith(p)\<close> is \<open>prefix p s\<close>.
\<close>

definition includes_str :: "string \<Rightarrow> string \<Rightarrow> bool" where
  "includes_str s p = sublist p s"

definition startsWith :: "string \<Rightarrow> string \<Rightarrow> bool" where
  "startsWith s p = prefix p s"

text \<open>
  \<^verbatim>\<open>s.replace(p, r)\<close> with a string pattern replaces the first occurrence of \<open>p\<close> only.
  (The replacement strings of this program contain no \<^verbatim>\<open>$\<close>, so none of the special
  replacement patterns of JavaScript arises.)
\<close>

fun replace :: "string \<Rightarrow> string \<Rightarrow> string \<Rightarrow> string" where
  "replace [] p r = (if p = [] then r else [])"
| "replace (c # cs) p r =
     (if prefix p (c # cs) then r @ drop (length p) (c # cs) else c # replace cs p r)"

definition toLowerCase_char :: "char \<Rightarrow> char" where
  "toLowerCase_char c =
     (case map_of (zip ''ABCDEFGHIJKLMNOPQRSTUVWXYZ'' ''abcdefghijklmnopqrstuvwxyz'') c of
        Some l \<Rightarrow> l
      | None \<Rightarrow> c)"

definition toLowerCase :: "string \<Rightarrow> string" where
  "toLowerCase s = map toLowerCase_char s"

text \<open>
  A \<^verbatim>\<open>Headers\<close> object: header names are case-insensitive and are kept in lower case;
  \<^verbatim>\<open>set\<close> overwrites, \<^verbatim>\<open>append\<close> (used when a \<^verbatim>\<open>Headers\<close> object is built
  from an initialiser) joins with a comma, \<^verbatim>\<open>get\<close> returns \<^verbatim>\<open>null\<close> (here \<open>None\<close>)
  for a header that is not there.
\<close>

type_synonym header_map = "string \<rightharpoonup> string"

definition headers_set :: "string \<Rightarrow> string \<Rightarrow> header_map \<Rightarrow> header_map" where
  "headers_set name v h = h(toLowerCase name \<mapsto> v)"

definition headers_append :: "string \<Rightarrow> string \<Rightarrow> header_map \<Rightarrow> header_map" where
  "headers_append name v h =
     h(toLowerCase name \<mapsto> (case h (toLowerCase name) of None \<Rightarrow> v | Some old \<Rightarrow> old @ '', '' @ v))"

definition headers_get :: "header_map \<Rightarrow> string \<Rightarrow> string option" where
  "headers_get h name = h (toLowerCase name)"

definition new_Headers :: "(string \<times> string) list \<Rightarrow> header_map" where
  "new_Headers init = fold (\<lambda>(name, v) h. headers_append name v h) init Map.empty"

record response =
  status :: nat
  headers :: header_map
  body :: "string option"

datatype error = TypeError

section \<open>JSON serialisation and base64\<close>

text \<open>
  The values \<^verbatim>\<open>JSON.stringify\<close> is applied to. \<open>JNum n\<close> is the number with the integer
  value \<open>n\<close> (an integer a double represents exactly, below \<open>10^21\<close> in magnitude, is
  printed in plain decimal); the entries of \<open>JObj\<close> are in property enumeration order.
  \<open>Undefined\<close> and \<open>BigInt\<close> are the two values of type \<^verbatim>\<open>unknown\<close> kept here for which the
  serialisation has no text: \<^verbatim>\<open>JSON.stringify(undefined)\<close> is \<^verbatim>\<open>undefined\<close>, and a
  \<^verbatim>\<open>bigint\<close> makes it throw.
\<close>

datatype json =
    JNull
  | JBool bool
  | JNum int
  | JStr string
  | JArr "json list"
  | JObj "(string \<times> json) list"

datatype unknown = Undefined | BigInt int | Value json

definition hex_digit :: "nat \<Rightarrow> char" where
  "hex_digit n = ''0123456789abcdef'' ! n"

definition quote_char :: "char \<Rightarrow> string" where
  "quote_char c =
     (if c = CHR 0x22 then [CHR 0x5C, CHR 0x22]
      else if c = CHR 0x5C then [CHR 0x5C, CHR 0x5C]
      else if c = CHR 0x08 then [CHR 0x5C, CHR ''b'']
      else if c = CHR 0x0C then [CHR 0x5C, CHR ''f'']
      else if c = CHR 0x0A then [CHR 0x5C, CHR ''n'']
      else if c = CHR 0x0D then [CHR 0x5C, CHR ''r'']
      else if c = CHR 0x09 then [CHR 0x5C, CHR ''t'']
      else if (of_char c :: nat) < 32
        then [CHR 0x5C, CHR ''u'', CHR ''0'', CHR ''0'',
              hex_digit ((of_char c :: nat) div 16), hex_digit ((of_char c :: nat) mod 16)]
      else [c])"

definition quote_string :: "string \<Rightarrow> string" where
  "quote_string s = [CHR 0x22] @ concat (map quote_char s) @ [CHR 0x22]"

fun digits :: "nat \<Rightarrow> string" where
  "digits n =
     (if n < 10 then [''0123456789'' ! n] else digits (n div 10) @ [''0123456789'' ! (n mod 10)])"

declare digits.simps [simp del]

definition number_toString :: "int \<Rightarrow> string" where
  "number_toString i = (if i < 0 then ''-'' @ digits (nat (- i)) else digits (nat i))"

fun join_comma :: "string list \<Rightarrow> string" where
  "join_comma [] = []"
| "join_comma [x] = x"
| "join_comma (x # y # ys) = x @ '','' @ join_comma (y # ys)"

primrec serialize :: "json \<Rightarrow> string" where
  "serialize JNull = ''null''"
| "serialize (JBool b) = (if b then ''true'' else ''false'')"
| "serialize (JNum i) = number_toString i"
| "serialize (JStr s) = quote_string s"
| "serialize (JArr xs) = ''['' @ join_comma (map serialize xs) @ '']''"
| "serialize (JObj kvs) =
     ''{'' @ join_comma (map (\<lambda>(k, t). quote_string k @ '':'' @ t) (map (map_prod id serialize) kvs))
       @ ''}''"

text \<open>\<open>None\<close> is the outcome without a text: the result \<^verbatim>\<open>undefined\<close>, or an exception.\<close>

fun JSON_stringify :: "unknown \<Rightarrow> string option" where
  "JSON_stringify Undefined = None"
| "JSON_stringify (BigInt i) = None"
| "JSON_stringify (Value j) = Some (serialize j)"

text \<open>\<^verbatim>\<open>Buffer.from(s).toString('base64')\<close>: the standard alphabet, padded with \<^verbatim>\<open>=\<close>.\<close>

definition b64 :: "nat \<Rightarrow> char" where
  "b64 n = ''ABCDEFGHIJKLMNOPQRSTUVWXYZabcdefghijklmnopqrstuvwxyz0123456789+/'' ! n"

fun base64 :: "nat list \<Rightarrow> string" where
  "base64 [] = []"
| "base64 [a] = [b64 (a div 4), b64 ((a mod 4) * 16), CHR ''='', CHR ''='']"
| "base64 [a, b] =
     [b64 (a div 4), b64 ((a mod 4) * 16 + b div 16), b64 ((b mod 16) * 4), CHR ''='']"
| "base64 (a # b # c # rest) =
     [b64 (a div 4), b64 ((a mod 4) * 16 + b div 16), b64 ((b mod 16) * 4 + c div 64),
      b64 (c mod 64)] @ base64 rest"

definition toString_base64 :: "string \<Rightarrow> string" where
  "toString_base64 s = base64 (map of_char s)"

text \<open>\<^verbatim>\<open>s.slice(0, n)\<close> on a string: its first \<open>n\<close> characters, all of it when it is shorter.\<close>

definition slice0 :: "nat \<Rightarrow> string \<Rightarrow> string" where
  "slice0 n s = take n s"

section \<open>The cache policy table and the API caching helper\<close>

record cache_policy =
  cacheControl :: string
  description :: string

definition CACHE_POLICIES :: "(string \<times> cache_policy) list" where
  "CACHE_POLICIES =
    [(''homepage'',
        \<lparr>cacheControl = ''public, s-maxage=60, stale-while-revalidate=300, stale-if-error=86400'',
         description = ''Homepage: 1 minute CDN + 5 min stale''\<rparr>),
     (''productList'',
        \<lparr>cacheControl = ''public, s-maxage=1800, stale-while-revalidate=86400, stale-if-error=604800'',
         description = ''Product lists: 30 min CDN + 24hr stale''\<rparr>),
     (''productDetail'',
        \<lparr>cacheControl = ''public, s-maxage=3600, stale-while-revalidate=86400, stale-if-error=604800'',
         description = ''Product details: 1hr CDN + 24hr stale''\<rparr>),
     (''blog'',
        \<lparr>cacheControl = ''public, s-maxage=3600, stale-while-revalidate=86400, stale-if-error=604800'',
         description = ''Blog posts: 1hr CDN + 24hr stale''\<rparr>),
     (''category'',
        \<lparr>cacheControl = ''public, s-maxage=3600, stale-while-revalidate=86400, stale-if-error=604800'',
         description = ''Categories: 1hr CDN + 24hr stale''\<rparr>),
     (''images'',
        \<lparr>cacheControl = ''public, max-age=31536000, immutable'',
         description = ''Images: 1 year immutable''\<rparr>),
     (''noCache'',
        \<lparr>cacheControl = ''private, no-cache, no-store, must-revalidate'',
         description = ''User data: No caching''\<rparr>),
     (''search'',
        \<lparr>cacheControl = ''public, s-maxage=900, stale-while-revalidate=3600'',
         description = ''Search: 15 min CDN + 1hr stale''\<rparr>)]"

text \<open>
  The type \<^verbatim>\<open>keyof typeof CACHE_POLICIES\<close> of the \<^verbatim>\<open>policy\<close> parameters: one constructor
  for each key of the table, \<open>key_name\<close> giving the key it stands for.
\<close>

datatype policy_key =
  K_homepage | K_productList | K_productDetail | K_blog | K_category | K_images | K_noCache
  | K_search

fun key_name :: "policy_key \<Rightarrow> string" where
  "key_name K_homepage = ''homepage''"
| "key_name K_productList = ''productList''"
| "key_name K_productDetail = ''productDetail''"
| "key_name K_blog = ''blog''"
| "key_name K_category = ''category''"
| "key_name K_images = ''images''"
| "key_name K_noCache = ''noCache''"
| "key_name K_search = ''search''"

text \<open>A parameter with a default value: \<open>None\<close> is the omitted argument.\<close>

definition default_policy :: "policy_key option \<Rightarrow> policy_key" where
  "default_policy p = (case p of None \<Rightarrow> K_productList | Some k \<Rightarrow> k)"

text \<open>
  \<^verbatim>\<open>NextResponse.json(data, init)\<close>: the body is the JSON text of \<open>data\<close>, the status is 200
  unless \<open>init\<close> gives one, the headers are those of \<open>init\<close>, with
  \<^verbatim>\<open>content-type: application/json\<close> added when \<open>init\<close> has no content type. The
  serialisation is a parameter \<open>stringify\<close>; a value without a JSON text raises a
  \<^verbatim>\<open>TypeError\<close>.
\<close>

definition NextResponse_json ::
  "('a \<Rightarrow> string option) \<Rightarrow> 'a \<Rightarrow> (string \<times> string) list \<Rightarrow> error + response" where
  "NextResponse_json stringify data init_headers =
     (case stringify data of
        None \<Rightarrow> Inl TypeError
      | Some text \<Rightarrow>
          let h = new_Headers init_headers;
              h' = (if headers_get h ''content-type'' = None
                    then headers_set ''content-type'' ''application/json'' h else h)
          in Inr \<lparr>status = 200, headers = h', body = Some text\<rparr>)"

text \<open>
  \<^verbatim>\<open>createCachedResponse(data, policy = 'productList')\<close>. The header object is built before
  the call of \<^verbatim>\<open>NextResponse.json\<close>, so the ETag expression is evaluated first:
  \<^verbatim>\<open>Buffer.from\<close> raises a \<^verbatim>\<open>TypeError\<close> when \<^verbatim>\<open>JSON.stringify\<close> has no text to give.
\<close>

definition ETag_of :: "string \<Rightarrow> string" where
  "ETag_of text = ''W/'' @ [CHR 0x22] @ slice0 20 (toString_base64 text) @ [CHR 0x22]"

definition createCachedResponse ::
  "('a \<Rightarrow> string option) \<Rightarrow> 'a \<Rightarrow> policy_key option \<Rightarrow> error + response" where
  "createCachedResponse stringify data policy =
     (case map_of CACHE_POLICIES (key_name (default_policy policy)) of
        None \<Rightarrow> Inl TypeError
      | Some cachePolicy \<Rightarrow>
          (case stringify data of
             None \<Rightarrow> Inl TypeError
           | Some text \<Rightarrow>
               NextResponse_json stringify data
                 [(''Cache-Control'', cacheControl cachePolicy),
                  (''Content-Type'', ''application/json''),
                  (''ETag'', ETag_of text)]))"

text \<open>
  \<^verbatim>\<open>checkConditionalRequest(request, lastModified)\<close>. \<^verbatim>\<open>new Date(s).getTime()\<close> is the
  parameter \<open>Date_getTime\<close>, with \<open>None\<close> for \<^verbatim>\<open>NaN\<close> (a text that is no date); every
  comparison with \<^verbatim>\<open>NaN\<close> is false. The test \<^verbatim>\<open>if (ifModifiedSince)\<close> fails for a missing
  header and for the empty string. The result \<open>None\<close> is \<^verbatim>\<open>null\<close>.
\<close>

record url =
  protocol :: string
  host :: string
  pathname :: string
  search :: string
  hash :: string

record request =
  req_headers :: header_map
  nextUrl :: url

definition checkConditionalRequest ::
  "(string \<Rightarrow> int option) \<Rightarrow> request \<Rightarrow> string \<Rightarrow> response option" where
  "checkConditionalRequest Date_getTime request lastModified =
     (let ifNoneMatch = headers_get (req_headers request) ''if-none-match'';
          ifModifiedSince = headers_get (req_headers request) ''if-modified-since''
      in case ifModifiedSince of
           None \<Rightarrow> None
         | Some ims \<Rightarrow>
             if ims = [] then None
             else (case (Date_getTime ims, Date_getTime lastModified) of
                     (Some clientDate, Some serverDate) \<Rightarrow>
                       if clientDate \<ge> serverDate
                       then Some \<lparr>status = 304, headers = Map.empty, body = None\<rparr>
                       else None
                   | _ \<Rightarrow> None))"

text \<open>
  The epoch milliseconds of the three timestamps of the specification's examples; a
  table to instantiate \<open>Date_getTime\<close> with, every other text counting as no date.
\<close>

definition example_getTime :: "string \<Rightarrow> int option" where
  "example_getTime s =
     map_of [(''2023-12-31T00:00:00Z'', 1703980800000),
             (''2024-01-01T00:00:00Z'', 1704067200000),
             (''2024-01-02T00:00:00Z'', 1704153600000)] s"

text \<open>
  \<^verbatim>\<open>withCache(fetchFn, policy = 'productList')\<close>. The fetch operation acts on a state \<open>'s\<close>
  and either returns a value (\<open>Inr\<close>) or fails with an error (\<open>Inl\<close>); the calls of
  \<^verbatim>\<open>console.error\<close> are collected in a list beside that state. The policy object is
  the result of the table lookup as it is (\<open>None\<close> would be \<^verbatim>\<open>undefined\<close>).
\<close>

definition withCache ::
  "('s \<Rightarrow> ('e + 'a) \<times> 's) \<Rightarrow> policy_key option \<Rightarrow> (string \<times> 'e) list \<times> 's
     \<Rightarrow> ('e + 'a \<times> cache_policy option) \<times> ((string \<times> 'e) list \<times> 's)" where
  "withCache fetchFn policy w =
     (case w of (console, s) \<Rightarrow>
        (case fetchFn s of
           (Inr data, s') \<Rightarrow>
             (Inr (data, map_of CACHE_POLICIES (key_name (default_policy policy))), (console, s'))
         | (Inl err, s') \<Rightarrow>
             (Inl err, (console @ [(''Cache fetch error:'', err)], s'))))"

text \<open>A fetch operation instrumented with a counter of its invocations.\<close>

definition counting :: "('s \<Rightarrow> 'r \<times> 's) \<Rightarrow> nat \<times> 's \<Rightarrow> 'r \<times> (nat \<times> 's)" where
  "counting fetchFn ns = (case ns of (n, s) \<Rightarrow> (fst (fetchFn s), (Suc n, snd (fetchFn s))))"

section \<open>The request middleware\<close>

text \<open>
  A URL is the record of its components; \<open>href\<close> puts them together. The path of a URL
  object is always percent-encoded: the parser, and the setter of \<^verbatim>\<open>url.pathname\<close> as
  well, replace every byte of the path percent-encode set (the controls, the space,
  \<^verbatim>\<open>" # < > ? ` { }\<close> and every byte from \<^verbatim>\<open>0x7F\<close> on) by \<^verbatim>\<open>%\<close> and its two upper-case
  hexadecimal digits, and leave every other byte, \<^verbatim>\<open>%\<close> too, as it is. So the pathname
  the middleware reads never holds a space; a space of the requested path is there as
  \<^verbatim>\<open>%20\<close>. (Dot segments and backslashes, which the parser resolves, are left aside.)
  \<^verbatim>\<open>NextResponse.next()\<close> is the pass-through response, \<^verbatim>\<open>NextResponse.redirect(url, status)\<close>
  a response with that status and the URL as its \<^verbatim>\<open>Location\<close>.
\<close>

definition path_percent_encode_set :: "char \<Rightarrow> bool" where
  "path_percent_encode_set c \<longleftrightarrow>
     (of_char c :: nat) \<le> 32 \<or> 127 \<le> (of_char c :: nat)
       \<or> c \<in> set [CHR 0x22, CHR ''#'', CHR ''<'', CHR ''>'', CHR ''?'', CHR 0x60, CHR ''{'', CHR ''}'']"

definition HEX_digit :: "nat \<Rightarrow> char" where
  "HEX_digit n = ''0123456789ABCDEF'' ! n"

definition percent_encode_char :: "char \<Rightarrow> string" where
  "percent_encode_char c =
     (if path_percent_encode_set c
      then [CHR ''%'', HEX_digit ((of_char c :: nat) div 16), HEX_digit ((of_char c :: nat) mod 16)]
      else [c])"

definition encode_path :: "string \<Rightarrow> string" where
  "encode_path s = concat (map percent_encode_char s)"

definition set_pathname :: "string \<Rightarrow> url \<Rightarrow> url" where
  "set_pathname v u = u\<lparr>pathname := encode_path v\<rparr>"

definition href :: "url \<Rightarrow> string" where
  "href u = protocol u @ ''//'' @ host u @ pathname u @ search u @ hash u"

definition NextResponse_next :: response where
  "NextResponse_next =
     \<lparr>status = 200, headers = headers_set ''x-middleware-next'' ''1'' Map.empty, body = None\<rparr>"

definition NextResponse_redirect :: "url \<Rightarrow> nat \<Rightarrow> response" where
  "NextResponse_redirect u st =
     \<lparr>status = st, headers = headers_set ''Location'' (href u) Map.empty, body = None\<rparr>"

definition redirect_pathname :: "string \<Rightarrow> string" where
  "redirect_pathname p =
     replace (replace p ''/self-tapping -screws'' ''/self-tapping-screws'')
       ''/self-tapping%20-screws'' ''/self-tapping-screws''"

definition middleware :: "request \<Rightarrow> response" where
  "middleware request =
     (let response = NextResponse_next;
          p = pathname (nextUrl request)
      in if includes_str p ''/self-tapping -screws'' \<or> includes_str p ''/self-tapping%20-screws''
         then
           (let url = nextUrl request;
                url = set_pathname (redirect_pathname p) url
            in NextResponse_redirect url 301)
         else
           (let response =
                  (if p = ''/''
                   then response\<lparr>headers := headers_set ''Cache-Control''
                          ''public, s-maxage=60, stale-while-revalidate=300, stale-if-error=86400''
                          (headers response)\<rparr>
                   else response);
                response =
                  (if startsWith p ''/blog''
                   then response\<lparr>headers := headers_set ''Cache-Control''
                          ''public, s-maxage=3600, stale-while-revalidate=86400, stale-if-error=604800''
                          (headers response)\<rparr>
                   else response);
                response =
                  (if startsWith p ''/products'' \<or> startsWith p ''/category''
                   then response\<lparr>headers := headers_set ''Cache-Control''
                          ''public, s-maxage=1800, stale-while-revalidate=86400, stale-if-error=604800''
                          (headers response)\<rparr>
                   else response)
            in response))"

text \<open>
  The number of \<^verbatim>\<open>response.headers.set('Cache-Control', ...)\<close> statements of the middleware
  whose condition holds of a path.
\<close>

definition cache_assignments :: "string \<Rightarrow> nat" where
  "cache_assignments p =
     (if p = ''/'' then 1 else 0) + (if startsWith p ''/blog'' then 1 else 0)
       + (if startsWith p ''/products'' \<or> startsWith p ''/category'' then 1 else 0)"

text \<open>
  The matching expression \<^verbatim>\<open>'/((?!api|_next/static|_next/image|favicon.ico).*)'\<close> of
  \<^verbatim>\<open>config.matcher\<close>, read as the anchored regular expression the framework makes of
  it, which distinguishes upper and lower case: a slash, then any text without a line
  break that does not begin with one of the four alternatives of the negative lookahead.
  In an alternative a dot stands for any character but a line break.
\<close>

definition matcher_lookahead :: "string list" where
  "matcher_lookahead = [''api'', ''_next/static'', ''_next/image'', ''favicon.ico'']"

fun regex_prefix :: "string \<Rightarrow> string \<Rightarrow> bool" where
  "regex_prefix [] s = True"
| "regex_prefix (a # as) [] = False"
| "regex_prefix (a # as) (c # cs) =
     ((if a = CHR ''.'' then c \<noteq> CHR 0x0A \<and> c \<noteq> CHR 0x0D else a = c)
       \<and> regex_prefix as cs)"

definition matcher_matches :: "string \<Rightarrow> bool" where
  "matcher_matches p =
     (case p of
        [] \<Rightarrow> False
      | c # rest \<Rightarrow>
          c = CHR ''/'' \<and> \<not> list_ex (\<lambda>alt. regex_prefix alt rest) matcher_lookahead
            \<and> CHR 0x0A \<notin> set rest \<and> CHR 0x0D \<notin> set rest)"

text \<open>The middleware runs on the requests its matcher matches only; \<open>None\<close>: it did not run.\<close>

definition run_middleware :: "request \<Rightarrow> response option" where
  "run_middleware request =
     (if matcher_matches (pathname (nextUrl request)) then Some (middleware request) else None)"

text \<open>
  A request for a path and a query string, on a host to run examples on: its URL is
  parsed from the text of the path, so its pathname is that text percent-encoded.
\<close>

definition request_for :: "string \<Rightarrow> string \<Rightarrow> request" where
  "request_for raw q =
     \<lparr>req_headers = Map.empty,
      nextUrl = \<lparr>protocol = ''https:'', host = ''localhost:3000'', pathname = encode_path raw,
                 search = q, hash = []\<rparr>\<rparr>"

section \<open>The framework header configuration\<close>

text \<open>The list \<^verbatim>\<open>headers()\<close> returns: each rule a source pattern and its key/value pairs.\<close>

record route_rule =
  source :: string
  route_headers :: "(string \<times> string) list"

definition nextConfig_headers :: "route_rule list" where
  "nextConfig_headers =
    [\<lparr>source = ''/'',
      route_headers =
        [(''Cache-Control'', ''public, s-maxage=60, stale-while-revalidate=300, stale-if-error=86400''),
         (''X-Content-Type-Options'', ''nosniff'')]\<rparr>,
     \<lparr>source = ''/blog/:path*'',
      route_headers =
        [(''Cache-Control'',
          ''public, s-maxage=3600, stale-while-revalidate=86400, stale-if-error=604800'')]\<rparr>,
     \<lparr>source = ''/products/:path*'',
      route_headers =
        [(''Cache-Control'',
          ''public, s-maxage=1800, stale-while-revalidate=86400, stale-if-error=604800'')]\<rparr>,
     \<lparr>source = ''/category/:path*'',
      route_headers =
        [(''Cache-Control'',
          ''public, s-maxage=3600, stale-while-revalidate=86400, stale-if-error=604800'')]\<rparr>,
     \<lparr>source = ''/:path*(css|jpg|jpeg|png|gif|ico|webp|svg|woff|woff2|ttf|otf)'',
      route_headers = [(''Cache-Control'', ''public, max-age=31536000, immutable'')]\<rparr>,
     \<lparr>source = ''/api/:path*'',
      route_headers = [(''Cache-Control'', ''private, no-cache, no-store, must-revalidate'')]\<rparr>,
     \<lparr>source = ''/:path*'',
      route_headers =
        [(''X-DNS-Prefetch-Control'', ''on''),
         (''X-Frame-Options'', ''SAMEORIGIN''),
         (''X-Content-Type-Options'', ''nosniff''),
         (''Referrer-Policy'', ''origin-when-cross-origin''),
         (''Permissions-Policy'', ''geolocation=(), microphone=(), camera=()'')]\<rparr>]"

text \<open>
  How the framework reads a source pattern (the path-to-regexp syntax), as far as the
  sources above use it: no escapes, braces or nested groups. The lexer cuts the source
  into characters, parameter names (\<^verbatim>\<open>:name\<close>), parenthesised patterns and modifiers;
  the parser makes a key of a name, a pattern or both, takes a directly preceding
  \<^verbatim>\<open>/\<close> or \<^verbatim>\<open>.\<close> as the key's prefix and a directly following modifier as its modifier.
  A name without a pattern matches one path segment (\<^verbatim>\<open>[^/]+?\<close>); the text of a
  parenthesised pattern is read as alternatives separated by \<^verbatim>\<open>|\<close>.
\<close>

datatype lexeme = T_CHAR char | T_NAME string | T_PATTERN string | T_MODIFIER char

definition is_name_char :: "char \<Rightarrow> bool" where
  "is_name_char c \<longleftrightarrow>
     c \<in> set ''0123456789ABCDEFGHIJKLMNOPQRSTUVWXYZabcdefghijklmnopqrstuvwxyz_''"

function lexer :: "string \<Rightarrow> lexeme list" where
  "lexer [] = []"
| "lexer (c # cs) =
     (if c \<in> set ''*+?'' then T_MODIFIER c # lexer cs
      else if c = CHR '':'' then T_NAME (takeWhile is_name_char cs) # lexer (dropWhile is_name_char cs)
      else if c = CHR ''(''
        then T_PATTERN (takeWhile (\<lambda>x. x \<noteq> CHR '')'') cs)
               # lexer (drop 1 (dropWhile (\<lambda>x. x \<noteq> CHR '')'') cs))
      else T_CHAR c # lexer cs)"
  by pat_completeness auto
termination
  by (relation "measure length")
     (auto simp: less_Suc_eq_le length_dropWhile_le
           intro!: le_trans [OF diff_le_self length_dropWhile_le])

datatype pattern = Segment | Alternatives "string list"

datatype token = Text char | Key string pattern string

fun split_bar :: "string \<Rightarrow> string list" where
  "split_bar [] = [[]]"
| "split_bar (c # cs) =
     (if c = CHR ''|'' then [] # split_bar cs
      else (case split_bar cs of [] \<Rightarrow> [[c]] | a # as \<Rightarrow> (c # a) # as))"

definition pattern_of :: "string \<Rightarrow> pattern" where
  "pattern_of text = Alternatives (split_bar text)"

fun modifier_of :: "lexeme list \<Rightarrow> string \<times> lexeme list" where
  "modifier_of (T_MODIFIER m # ls) = ([m], ls)"
| "modifier_of ls = ([], ls)"

definition key_after :: "char \<Rightarrow> pattern \<Rightarrow> string \<Rightarrow> token list" where
  "key_after c pat m = (if c \<in> set ''./'' then [Key [c] pat m] else [Text c, Key [] pat m])"

function (sequential) parse :: "lexeme list \<Rightarrow> token list" where
  "parse [] = []"
| "parse (T_CHAR c # T_NAME n # T_PATTERN p # ls) =
     key_after c (pattern_of p) (fst (modifier_of ls)) @ parse (snd (modifier_of ls))"
| "parse (T_CHAR c # T_NAME n # ls) =
     key_after c Segment (fst (modifier_of ls)) @ parse (snd (modifier_of ls))"
| "parse (T_CHAR c # T_PATTERN p # ls) =
     key_after c (pattern_of p) (fst (modifier_of ls)) @ parse (snd (modifier_of ls))"
| "parse (T_CHAR c # ls) = Text c # parse ls"
| "parse (T_NAME n # T_PATTERN p # ls) =
     Key [] (pattern_of p) (fst (modifier_of ls)) # parse (snd (modifier_of ls))"
| "parse (T_NAME n # ls) = Key [] Segment (fst (modifier_of ls)) # parse (snd (modifier_of ls))"
| "parse (T_PATTERN p # ls) =
     Key [] (pattern_of p) (fst (modifier_of ls)) # parse (snd (modifier_of ls))"
| "parse (T_MODIFIER m # ls) = parse ls"
  by pat_completeness auto
termination
  apply (relation "measure length")
          apply (auto simp: less_Suc_eq_le)
  subgoal for ls by (cases ls rule: modifier_of.cases) auto
  subgoal for ls by (cases ls rule: modifier_of.cases) auto
  subgoal for ls by (cases ls rule: modifier_of.cases) auto
  subgoal for ls by (cases ls rule: modifier_of.cases) auto
  done

text \<open>
  Matching is written with continuations: \<open>k\<close> decides the rest of the text. Literal
  text is compared without regard to case (the routes are compiled case-insensitive).
  A key with modifier \<^verbatim>\<open>*\<close> or \<^verbatim>\<open>+\<close> repeats its unit, prefix then pattern; the number
  of repetitions is bounded by the length of the text, each repetition that matters
  taking a character at least.
\<close>

definition literal_match :: "string \<Rightarrow> (string \<Rightarrow> bool) \<Rightarrow> string \<Rightarrow> bool" where
  "literal_match lit k s \<longleftrightarrow>
     length lit \<le> length s \<and> toLowerCase (take (length lit) s) = toLowerCase lit
       \<and> k (drop (length lit) s)"

fun segment_match :: "(string \<Rightarrow> bool) \<Rightarrow> string \<Rightarrow> bool" where
  "segment_match k [] = False"
| "segment_match k (c # cs) = (c \<noteq> CHR ''/'' \<and> (k cs \<or> segment_match k cs))"

definition pattern_match :: "pattern \<Rightarrow> (string \<Rightarrow> bool) \<Rightarrow> string \<Rightarrow> bool" where
  "pattern_match pat k s =
     (case pat of
        Segment \<Rightarrow> segment_match k s
      | Alternatives alts \<Rightarrow> list_ex (\<lambda>a. literal_match a k s) alts)"

primrec repeat_match ::
  "nat \<Rightarrow> ((string \<Rightarrow> bool) \<Rightarrow> string \<Rightarrow> bool) \<Rightarrow> (string \<Rightarrow> bool) \<Rightarrow> string \<Rightarrow> bool" where
  "repeat_match 0 u k s = k s"
| "repeat_match (Suc n) u k s = (k s \<or> u (repeat_match n u k) s)"

definition key_unit :: "string \<Rightarrow> pattern \<Rightarrow> (string \<Rightarrow> bool) \<Rightarrow> string \<Rightarrow> bool" where
  "key_unit pre pat k s = literal_match pre (pattern_match pat k) s"

fun token_match :: "token \<Rightarrow> (string \<Rightarrow> bool) \<Rightarrow> string \<Rightarrow> bool" where
  "token_match (Text c) k s = literal_match [c] k s"
| "token_match (Key pre pat m) k s =
     (if m = ''*'' then repeat_match (length s) (key_unit pre pat) k s
      else if m = ''+'' then key_unit pre pat (repeat_match (length s) (key_unit pre pat) k) s
      else if m = ''?'' then k s \<or> key_unit pre pat k s
      else key_unit pre pat k s)"

text \<open>
  A route matches a path when its tokens match all of it; the framework lets one
  trailing slash pass at the end.
\<close>

definition route_end :: "string \<Rightarrow> bool" where
  "route_end s \<longleftrightarrow> s = [] \<or> s = ''/''"

definition route_matches :: "string \<Rightarrow> string \<Rightarrow> bool" where
  "route_matches src p = foldr token_match (parse (lexer src)) route_end p"

text \<open>
  The headers the configuration gives a path: the rules are taken in their order, each
  rule that matches sets its headers, so that for a header name set twice the later rule
  wins.
\<close>

definition apply_rule :: "string \<Rightarrow> route_rule \<Rightarrow> header_map \<Rightarrow> header_map" where
  "apply_rule p rule h =
     (if route_matches (source rule) p
      then fold (\<lambda>(name, v) h'. headers_set name v h') (route_headers rule) h
      else h)"

definition framework_headers :: "string \<Rightarrow> header_map" where
  "framework_headers p = fold (apply_rule p) nextConfig_headers Map.empty"

text \<open>
  Paths as the router sees them: a list of segments, each preceded by a slash. A
  segment is not empty and has no slash in it.
\<close>

definition is_segment :: "string \<Rightarrow> bool" where
  "is_segment seg \<longleftrightarrow> seg \<noteq> [] \<and> CHR ''/'' \<notin> set seg"

definition path_of :: "string list \<Rightarrow> string" where
  "path_of segs = concat (map (\<lambda>seg. CHR ''/'' # seg) segs)"

definition static_extensions :: "string list" where
  "static_extensions =
     [''css'', ''jpg'', ''jpeg'', ''png'', ''gif'', ''ico'', ''webp'', ''svg'', ''woff'', ''woff2'',
      ''ttf'', ''otf'']"

section \<open>The navigation bar\<close>

text \<open>
  The component's state is its two \<^verbatim>\<open>useState\<close> cells, \<^verbatim>\<open>open\<close> (the field \<open>opened\<close>
  here) and \<^verbatim>\<open>isMounted\<close>. The rendered output is a tree of
  elements, each with its tag, its attributes and its children. \<^verbatim>\<open>{open && (...)}\<close>
  contributes the panel when \<open>open\<close> holds and nothing otherwise.
\<close>

record navbar_state =
  opened :: bool
  isMounted :: bool

definition initial_state :: navbar_state where
  "initial_state = \<lparr>opened = False, isMounted = False\<rparr>"

text \<open>The effect run after the first render.\<close>

definition useEffect_mount :: "navbar_state \<Rightarrow> navbar_state" where
  "useEffect_mount st = st\<lparr>isMounted := True\<rparr>"

text \<open>
  \<^verbatim>\<open>onClick={() => setOpen(!open)}\<close>: the handler made by a render writes the negation of
  the value of \<open>open\<close> that render saw. An activation of the button runs the handler of
  the current render.
\<close>

definition onClick :: "bool \<Rightarrow> navbar_state \<Rightarrow> navbar_state" where
  "onClick open_seen st = st\<lparr>opened := \<not> open_seen\<rparr>"

definition activate :: "navbar_state \<Rightarrow> navbar_state" where
  "activate st = onClick (opened st) st"

datatype element = Element string "(string \<times> string) list" "element list" | TextNode string

definition Link :: "string \<Rightarrow> (string \<times> string) list \<Rightarrow> element list \<Rightarrow> element" where
  "Link h attrs children = Element ''Link'' ((''href'', h) # attrs) children"

definition desktop_row :: element where
  "desktop_row =
     Element ''div'' [(''className'', ''hidden md:flex gap-8 text-gray-200 font-medium'')]
       [Link ''/products'' [] [TextNode ''Products''],
        Link ''/about'' [] [TextNode ''About''],
        Link ''/contact'' [] [TextNode ''Contact'']]"

definition mobile_panel :: element where
  "mobile_panel =
     Element ''div'' [(''className'', ''md:hidden bg-dark border-t border-gray-700 text-center pb-4'')]
       [Link ''/products'' [(''className'', ''block py-2'')] [TextNode ''Products''],
        Link ''/about'' [(''className'', ''block py-2'')] [TextNode ''About''],
        Link ''/contact'' [(''className'', ''block py-2'')] [TextNode ''Contact'']]"

definition toggle_button :: "bool \<Rightarrow> element" where
  "toggle_button opn =
     Element ''button''
       [(''className'', ''md:hidden text-2xl text-white''),
        (''aria-label'', if opn then ''Close menu'' else ''Open menu''),
        (''aria-expanded'', if opn then ''true'' else ''false''),
        (''type'', ''button'')]
       [TextNode [CHR 0xE2, CHR 0x98, CHR 0xB0]]"

definition logo :: element where
  "logo =
     Link ''/'' [(''className'', ''text-2xl font-bold text-primary gap-2'')]
       [Element ''Image''
          [(''src'', ''/SB.jpg''), (''alt'', ''logo''), (''width'', ''180''), (''height'', ''180''),
           (''className'', ''h-9 w-auto object-contain''), (''priority'', ''true'')] []]"

definition Navbar :: "navbar_state \<Rightarrow> element" where
  "Navbar st =
     Element ''nav''
       [(''className'', ''fixed top-0 w-full bg-dark/90 backdrop-blur border-b border-gray-800 z-50'')]
       ([Element ''div''
           [(''className'', ''max-w-7xl mx-auto flex justify-between items-center px-4 py-4'')]
           [logo, desktop_row, toggle_button (opened st)]]
        @ (if opened st then [mobile_panel] else []))"

text \<open>Reading the rendered tree: its elements, and the links (target, label) of an element.\<close>

fun elements :: "element \<Rightarrow> element list" where
  "elements (TextNode t) = []"
| "elements (Element tag attrs children) =
     Element tag attrs children # concat (map elements children)"

fun text_of :: "element \<Rightarrow> string" where
  "text_of (TextNode t) = t"
| "text_of (Element tag attrs children) = concat (map text_of children)"

definition links :: "element \<Rightarrow> (string \<times> string) list" where
  "links e =
     map (\<lambda>l. (case l of
                  Element tag attrs children \<Rightarrow>
                    (case map_of attrs ''href'' of Some h \<Rightarrow> h | None \<Rightarrow> [])
                | TextNode t \<Rightarrow> [],
                text_of l))
       (filter (\<lambda>x. case x of Element tag attrs children \<Rightarrow> tag = ''Link'' | TextNode t \<Rightarrow> False)
          (elements e))"

section \<open>Reference values of the specification\<close>

text \<open>The policy table as the specification prints it: policy name and directive.\<close>

definition spec_policy_table :: "(string \<times> string) list" where
  "spec_policy_table =
    [(''homepage'', ''public, s-maxage=60, stale-while-revalidate=300, stale-if-error=86400''),
     (''productList'', ''public, s-maxage=1800, stale-while-revalidate=86400, stale-if-error=604800''),
     (''productDetail'', ''public, s-maxage=3600, stale-while-revalidate=86400, stale-if-error=604800''),
     (''blog'', ''public, s-maxage=3600, stale-while-revalidate=86400, stale-if-error=604800''),
     (''category'', ''public, s-maxage=3600, stale-while-revalidate=86400, stale-if-error=604800''),
     (''images'', ''public, max-age=31536000, immutable''),
     (''noCache'', ''private, no-cache, no-store, must-revalidate''),
     (''search'', ''public, s-maxage=900, stale-while-revalidate=3600'')]"

text \<open>
  The extension of a path: what follows the last dot of its last segment, nothing when
  that segment has no dot.
\<close>

definition extension_of :: "string \<Rightarrow> string" where
  "extension_of p =
     (let name = rev (takeWhile (\<lambda>c. c \<noteq> CHR ''/'') (rev p))
      in if CHR ''.'' \<in> set name then rev (takeWhile (\<lambda>c. c \<noteq> CHR ''.'') (rev name)) else [])"

text \<open>
  The route header rules as the specification lists them, each pattern in the form the
  configuration writes it.
\<close>

definition spec_route_rules :: "(string \<times> (string \<times> string) list) list" where
  "spec_route_rules =
    [(''/'',
        [(''Cache-Control'', ''public, s-maxage=60, stale-while-revalidate=300, stale-if-error=86400''),
         (''X-Content-Type-Options'', ''nosniff'')]),
     (''/blog/:path*'',
        [(''Cache-Control'',
          ''public, s-maxage=3600, stale-while-revalidate=86400, stale-if-error=604800'')]),
     (''/products/:path*'',
        [(''Cache-Control'',
          ''public, s-maxage=1800, stale-while-revalidate=86400, stale-if-error=604800'')]),
     (''/category/:path*'',
        [(''Cache-Control'',
          ''public, s-maxage=3600, stale-while-revalidate=86400, stale-if-error=604800'')]),
     (''/:path*(css|jpg|jpeg|png|gif|ico|webp|svg|woff|woff2|ttf|otf)'',
        [(''Cache-Control'', ''public, max-age=31536000, immutable'')]),
     (''/api/:path*'', [(''Cache-Control'', ''private, no-cache, no-store, must-revalidate'')]),
     (''/:path*'',
        [(''X-DNS-Prefetch-Control'', ''on''),
         (''X-Frame-Options'', ''SAMEORIGIN''),
         (''X-Content-Type-Options'', ''nosniff''),
         (''Referrer-Policy'', ''origin-when-cross-origin''),
         (''Permissions-Policy'', ''geolocation=(), microphone=(), camera=()'')])]"

section \<open>Properties\<close>

subsection \<open>The policy table and the response-building helper\<close>

lemma lower_names [simp]:
  "toLowerCase ''Cache-Control'' = ''cache-control''"
  "toLowerCase ''Content-Type'' = ''content-type''"
  "toLowerCase ''content-type'' = ''content-type''"
  "toLowerCase ''ETag'' = ''etag''"
  by (simp_all add: toLowerCase_def toLowerCase_char_def)

lemma policy_lookup:
  "map_of CACHE_POLICIES (key_name k) \<noteq> None"
  "map_option cacheControl (map_of CACHE_POLICIES (key_name k)) = map_of spec_policy_table (key_name k)"
  by (cases k; simp add: CACHE_POLICIES_def spec_policy_table_def)+

lemma createCachedResponse_Some:
  assumes "stringify data = Some text" "map_of CACHE_POLICIES (key_name (default_policy policy)) = Some cp"
  shows "createCachedResponse stringify data policy =
     Inr \<lparr>status = 200,
          headers = [''cache-control'' \<mapsto> cacheControl cp, ''content-type'' \<mapsto> ''application/json'',
                     ''etag'' \<mapsto> ETag_of text],
          body = Some text\<rparr>"
  using assms
  by (simp add: createCachedResponse_def NextResponse_json_def new_Headers_def headers_append_def
      headers_get_def headers_set_def)

text \<open>
  C1. The policy table has exactly the eight entries of the specification's table, with
  the same directives character for character, and they are the eight keys a policy
  parameter can name; for each of them the response-building helper, given that name and
  a value that has a JSON text, attaches exactly that directive as \<^verbatim>\<open>Cache-Control\<close>:
  \<^verbatim>\<open>images\<close> gives \<^verbatim>\<open>public, max-age=31536000, immutable\<close> and \<^verbatim>\<open>search\<close> gives
  \<^verbatim>\<open>public, s-maxage=900, stale-while-revalidate=3600\<close>.
\<close>

theorem cache_policy_table_exact:
  assumes "stringify data = Some text"
  shows "map (\<lambda>(name, pol). (name, cacheControl pol)) CACHE_POLICIES = spec_policy_table
    \<and> range key_name = set (map fst CACHE_POLICIES)
    \<and> (\<exists>r. createCachedResponse stringify data (Some k) = Inr r
          \<and> headers_get (headers r) ''Cache-Control'' = map_of spec_policy_table (key_name k)
          \<and> map_of spec_policy_table (key_name k) \<noteq> None)
    \<and> (\<exists>r. createCachedResponse stringify data (Some K_images) = Inr r
          \<and> headers_get (headers r) ''Cache-Control'' = Some ''public, max-age=31536000, immutable'')
    \<and> (\<exists>r. createCachedResponse stringify data (Some K_search) = Inr r
          \<and> headers_get (headers r) ''Cache-Control''
              = Some ''public, s-maxage=900, stale-while-revalidate=3600'')"
proof -
  have table: "map (\<lambda>(name, pol). (name, cacheControl pol)) CACHE_POLICIES = spec_policy_table"
    by (simp add: CACHE_POLICIES_def spec_policy_table_def)
  have keys: "range key_name = set (map fst CACHE_POLICIES)"
  proof
    show "range key_name \<subseteq> set (map fst CACHE_POLICIES)"
    proof
      fix x assume "x \<in> range key_name"
      then obtain k where "x = key_name k" by blast
      then show "x \<in> set (map fst CACHE_POLICIES)"
        by (cases k) (simp_all add: CACHE_POLICIES_def)
    qed
    have "key_name K_homepage \<in> range key_name" "key_name K_productList \<in> range key_name"
      "key_name K_productDetail \<in> range key_name" "key_name K_blog \<in> range key_name"
      "key_name K_category \<in> range key_name" "key_name K_images \<in> range key_name"
      "key_name K_noCache \<in> range key_name" "key_name K_search \<in> range key_name"
      by blast+
    then show "set (map fst CACHE_POLICIES) \<subseteq> range key_name"
      by (simp add: CACHE_POLICIES_def)
  qed
  have each: "\<exists>r. createCachedResponse stringify data (Some k') = Inr r
          \<and> headers_get (headers r) ''Cache-Control'' = map_of spec_policy_table (key_name k')
          \<and> map_of spec_policy_table (key_name k') \<noteq> None" for k'
  proof -
    obtain cp where cp: "map_of CACHE_POLICIES (key_name k') = Some cp"
      using policy_lookup(1) [of k'] by blast
    then have "map_of spec_policy_table (key_name k') = Some (cacheControl cp)"
      using policy_lookup(2) [of k'] by simp
    then show ?thesis
      using createCachedResponse_Some
          [where stringify = stringify and data = data and policy = "Some k'", OF assms] cp
      by (simp add: default_policy_def headers_get_def)
  qed
  have images: "map_of spec_policy_table (key_name K_images) = Some ''public, max-age=31536000, immutable''"
    and search: "map_of spec_policy_table (key_name K_search) = Some ''public, s-maxage=900, stale-while-revalidate=3600''"
    by (simp_all add: spec_policy_table_def)
  show ?thesis
    using table keys each [of k] each [of K_images] each [of K_search] images search
    by simp
qed

lemma stringify_example:
  "JSON_stringify (Value (JObj [(''a'', JNum 1)])) = Some ([CHR ''{'', CHR 0x22, CHR ''a'', CHR 0x22] @ '':1}'')"
  by code_simp

theorem cache_policy_table_exact_witness:
  "JSON_stringify (Value (JObj [(''a'', JNum 1)])) = Some ([CHR ''{'', CHR 0x22, CHR ''a'', CHR 0x22] @ '':1}'')
   \<and> (\<exists>r. createCachedResponse JSON_stringify (Value (JObj [(''a'', JNum 1)])) (Some K_noCache) = Inr r
          \<and> headers_get (headers r) ''Cache-Control'' = Some ''private, no-cache, no-store, must-revalidate'')"
  using cache_policy_table_exact
      [where stringify = JSON_stringify and data = "Value (JObj [(''a'', JNum 1)])"
         and k = K_noCache, OF stringify_example]
    stringify_example
  by (simp add: spec_policy_table_def)

text \<open>
  C4. For every input value that has a JSON text, the build-cached-response operation
  returns a response with status 200, that text as its body, \<^verbatim>\<open>Content-Type\<close>
  \<^verbatim>\<open>application/json\<close>, the directive of the looked-up policy as \<^verbatim>\<open>Cache-Control\<close> (the
  policy \<^verbatim>\<open>productList\<close> when the name is omitted) and as \<^verbatim>\<open>ETag\<close> the text \<^verbatim>\<open>W/"\<close>,
  the first 20 characters of the base64 encoding of the JSON text, \<^verbatim>\<open>"\<close>. The ETag is a
  function of the JSON text alone, so equal inputs give equal ETags.
\<close>

theorem createCachedResponse_contract:
  assumes "stringify data = Some text"
  shows "\<exists>r cp. createCachedResponse stringify data policy = Inr r
      \<and> map_of CACHE_POLICIES (key_name (case policy of None \<Rightarrow> K_productList | Some k \<Rightarrow> k))
          = Some cp
      \<and> status r = 200
      \<and> body r = Some text
      \<and> headers_get (headers r) ''Content-Type'' = Some ''application/json''
      \<and> headers_get (headers r) ''Cache-Control'' = Some (cacheControl cp)
      \<and> headers_get (headers r) ''ETag''
          = Some (''W/'' @ [CHR 0x22] @ take 20 (toString_base64 text) @ [CHR 0x22])
      \<and> createCachedResponse stringify data None
          = createCachedResponse stringify data (Some K_productList)
      \<and> (policy = None \<longrightarrow> cacheControl cp
            = ''public, s-maxage=1800, stale-while-revalidate=86400, stale-if-error=604800'')"
proof -
  obtain cp where cp: "map_of CACHE_POLICIES (key_name (default_policy policy)) = Some cp"
    using policy_lookup(1) [of "default_policy policy"] by blast
  have r: "createCachedResponse stringify data policy =
     Inr \<lparr>status = 200,
          headers = [''cache-control'' \<mapsto> cacheControl cp, ''content-type'' \<mapsto> ''application/json'',
                     ''etag'' \<mapsto> ETag_of text],
          body = Some text\<rparr>"
    using createCachedResponse_Some
      [where stringify = stringify and data = data and policy = policy, OF assms cp] .
  have d: "createCachedResponse stringify data None
          = createCachedResponse stringify data (Some K_productList)"
    by (simp add: createCachedResponse_def default_policy_def)
  have pl: "policy = None \<longrightarrow> cacheControl cp
            = ''public, s-maxage=1800, stale-while-revalidate=86400, stale-if-error=604800''"
    using cp by (auto simp: default_policy_def CACHE_POLICIES_def)
  show ?thesis
    using r cp d pl
    by (simp add: default_policy_def headers_get_def ETag_of_def slice0_def)
qed

lemma base64_example:
  "toString_base64 ([CHR ''{'', CHR 0x22, CHR ''a'', CHR 0x22] @ '':1}'') = ''eyJhIjoxfQ==''"
  by (simp add: toString_base64_def b64_def)

theorem createCachedResponse_contract_witness:
  "JSON_stringify (Value (JObj [(''a'', JNum 1)]))
     = Some ([CHR ''{'', CHR 0x22, CHR ''a'', CHR 0x22] @ '':1}'')
   \<and> (\<exists>r. createCachedResponse JSON_stringify (Value (JObj [(''a'', JNum 1)])) None = Inr r
         \<and> status r = 200
         \<and> body r = Some ([CHR ''{'', CHR 0x22, CHR ''a'', CHR 0x22] @ '':1}'')
         \<and> headers_get (headers r) ''Cache-Control''
             = Some ''public, s-maxage=1800, stale-while-revalidate=86400, stale-if-error=604800''
         \<and> headers_get (headers r) ''ETag'' = Some (''W/'' @ [CHR 0x22] @ ''eyJhIjoxfQ=='' @ [CHR 0x22]))"
  using createCachedResponse_contract
      [where stringify = JSON_stringify and data = "Value (JObj [(''a'', JNum 1)])"
         and policy = None, OF stringify_example]
    stringify_example base64_example
  by auto

lemma createCachedResponse_no_text:
  "stringify data = None \<Longrightarrow> createCachedResponse stringify data policy = Inl TypeError"
  by (simp add: createCachedResponse_def split: option.splits)

subsection \<open>The conditional-request check\<close>

text \<open>
  C5. The conditional-request check returns the empty 304 response exactly when the
  request carries an \<^verbatim>\<open>if-modified-since\<close> header whose timestamp and the timestamp of
  \<open>lastModified\<close> both parse and the former is not below the latter; in every other case
  it returns the absent result. A header value that does not parse gives the absent
  result, no failure; and the result depends on the request through its
  \<^verbatim>\<open>if-modified-since\<close> header only, so \<^verbatim>\<open>if-none-match\<close> has no influence. (The empty
  text is no date.)
\<close>

theorem checkConditionalRequest_iff:
  assumes "Date_getTime [] = None"
  shows "checkConditionalRequest Date_getTime request lastModified
      = (if \<exists>ims c s. headers_get (req_headers request) ''if-modified-since'' = Some ims
               \<and> Date_getTime ims = Some c \<and> Date_getTime lastModified = Some s \<and> s \<le> c
         then Some \<lparr>status = 304, headers = Map.empty, body = None\<rparr>
         else None)
    \<and> (\<forall>ims. headers_get (req_headers request) ''if-modified-since'' = Some ims
           \<and> Date_getTime ims = None
         \<longrightarrow> checkConditionalRequest Date_getTime request lastModified = None)
    \<and> (\<forall>request'. headers_get (req_headers request') ''if-modified-since''
             = headers_get (req_headers request) ''if-modified-since''
         \<longrightarrow> checkConditionalRequest Date_getTime request' lastModified
             = checkConditionalRequest Date_getTime request lastModified)
    \<and> checkConditionalRequest Date_getTime
          (request\<lparr>req_headers := headers_set ''if-none-match'' etag (req_headers request)\<rparr>)
          lastModified
        = checkConditionalRequest Date_getTime request lastModified"
proof -
  have a: "checkConditionalRequest Date_getTime request lastModified
      = (if \<exists>ims c s. headers_get (req_headers request) ''if-modified-since'' = Some ims
               \<and> Date_getTime ims = Some c \<and> Date_getTime lastModified = Some s \<and> s \<le> c
         then Some \<lparr>status = 304, headers = Map.empty, body = None\<rparr>
         else None)"
    using assms
    by (auto simp: checkConditionalRequest_def Let_def split: option.splits)
  have b: "\<forall>ims. headers_get (req_headers request) ''if-modified-since'' = Some ims
           \<and> Date_getTime ims = None
         \<longrightarrow> checkConditionalRequest Date_getTime request lastModified = None"
    by (auto simp: checkConditionalRequest_def Let_def split: option.splits)
  have c: "\<forall>request'. headers_get (req_headers request') ''if-modified-since''
             = headers_get (req_headers request) ''if-modified-since''
         \<longrightarrow> checkConditionalRequest Date_getTime request' lastModified
             = checkConditionalRequest Date_getTime request lastModified"
    by (simp add: checkConditionalRequest_def Let_def)
  have "toLowerCase ''if-none-match'' \<noteq> toLowerCase ''if-modified-since''"
    by (simp add: toLowerCase_def toLowerCase_char_def)
  then have d: "checkConditionalRequest Date_getTime
          (request\<lparr>req_headers := headers_set ''if-none-match'' etag (req_headers request)\<rparr>)
          lastModified
        = checkConditionalRequest Date_getTime request lastModified"
    by (simp add: checkConditionalRequest_def Let_def headers_get_def headers_set_def)
  show ?thesis
    using a b c d by blast
qed

lemma example_getTime_values:
  "example_getTime [] = None"
  "example_getTime ''2023-12-31T00:00:00Z'' = Some 1703980800000"
  "example_getTime ''2024-01-01T00:00:00Z'' = Some 1704067200000"
  "example_getTime ''2024-01-02T00:00:00Z'' = Some 1704153600000"
  "example_getTime ''yesterday'' = None"
  by (simp_all add: example_getTime_def)

lemma lower_conditional [simp]:
  "toLowerCase ''if-modified-since'' = ''if-modified-since''"
  "toLowerCase ''if-none-match'' = ''if-none-match''"
  by (simp_all add: toLowerCase_def toLowerCase_char_def)

theorem checkConditionalRequest_iff_witness:
  "example_getTime [] = None
   \<and> checkConditionalRequest example_getTime
        \<lparr>req_headers = [''if-modified-since'' \<mapsto> ''2024-01-02T00:00:00Z''],
         nextUrl = \<lparr>protocol = ''https:'', host = ''localhost'', pathname = ''/api/products'',
                    search = [], hash = []\<rparr>\<rparr>
        ''2024-01-01T00:00:00Z''
       = Some \<lparr>status = 304, headers = Map.empty, body = None\<rparr>
   \<and> checkConditionalRequest example_getTime
        \<lparr>req_headers = [''if-modified-since'' \<mapsto> ''2023-12-31T00:00:00Z''],
         nextUrl = \<lparr>protocol = ''https:'', host = ''localhost'', pathname = ''/api/products'',
                    search = [], hash = []\<rparr>\<rparr>
        ''2024-01-01T00:00:00Z''
       = None
   \<and> checkConditionalRequest example_getTime
        \<lparr>req_headers = [''if-modified-since'' \<mapsto> ''yesterday''],
         nextUrl = \<lparr>protocol = ''https:'', host = ''localhost'', pathname = ''/api/products'',
                    search = [], hash = []\<rparr>\<rparr>
        ''2024-01-01T00:00:00Z''
       = None"
  using
    checkConditionalRequest_iff
      [where Date_getTime = example_getTime and lastModified = "''2024-01-01T00:00:00Z''"
         and request = "\<lparr>req_headers = [''if-modified-since'' \<mapsto> ''2024-01-02T00:00:00Z''],
           nextUrl = \<lparr>protocol = ''https:'', host = ''localhost'', pathname = ''/api/products'',
                      search = [], hash = []\<rparr>\<rparr>",
       OF example_getTime_values(1)]
    checkConditionalRequest_iff
      [where Date_getTime = example_getTime and lastModified = "''2024-01-01T00:00:00Z''"
         and request = "\<lparr>req_headers = [''if-modified-since'' \<mapsto> ''2023-12-31T00:00:00Z''],
           nextUrl = \<lparr>protocol = ''https:'', host = ''localhost'', pathname = ''/api/products'',
                      search = [], hash = []\<rparr>\<rparr>",
       OF example_getTime_values(1)]
    checkConditionalRequest_iff
      [where Date_getTime = example_getTime and lastModified = "''2024-01-01T00:00:00Z''"
         and request = "\<lparr>req_headers = [''if-modified-since'' \<mapsto> ''yesterday''],
           nextUrl = \<lparr>protocol = ''https:'', host = ''localhost'', pathname = ''/api/products'',
                      search = [], hash = []\<rparr>\<rparr>",
       OF example_getTime_values(1)]
  by (simp add: example_getTime_values headers_get_def)

subsection \<open>The with-cache wrapper\<close>

text \<open>
  C8. The with-cache wrapper invokes the fetch operation exactly once: the state it
  leaves is the state one invocation leaves, and an invocation counter goes up by one.
  When the operation succeeds with a value, the wrapper returns that value paired with
  the policy object of the given name (of \<^verbatim>\<open>productList\<close> when the name is omitted) and
  logs nothing; when it fails, the wrapper logs the failure once and fails with the very
  same error.
\<close>

theorem withCache_contract:
  "(\<forall>v s'. fetchFn s = (Inr v, s') \<longrightarrow>
      (\<exists>cp. map_of CACHE_POLICIES (key_name (case policy of None \<Rightarrow> K_productList | Some k \<Rightarrow> k))
              = Some cp
          \<and> withCache fetchFn policy (console, s) = (Inr (v, Some cp), (console, s'))))
   \<and> (\<forall>e s'. fetchFn s = (Inl e, s') \<longrightarrow>
        withCache fetchFn policy (console, s)
          = (Inl e, (console @ [(''Cache fetch error:'', e)], s')))
   \<and> snd (snd (withCache fetchFn policy (console, s))) = snd (fetchFn s)
   \<and> snd (snd (withCache (counting fetchFn) policy (console, (n, s)))) = (Suc n, snd (fetchFn s))"
proof -
  obtain cp where cp: "map_of CACHE_POLICIES (key_name (default_policy policy)) = Some cp"
    using policy_lookup(1) [of "default_policy policy"] by blast
  have a: "\<forall>v s'. fetchFn s = (Inr v, s') \<longrightarrow>
      (\<exists>cp. map_of CACHE_POLICIES (key_name (case policy of None \<Rightarrow> K_productList | Some k \<Rightarrow> k))
              = Some cp
          \<and> withCache fetchFn policy (console, s) = (Inr (v, Some cp), (console, s')))"
    using cp by (simp add: withCache_def default_policy_def)
  have b: "\<forall>e s'. fetchFn s = (Inl e, s') \<longrightarrow>
        withCache fetchFn policy (console, s)
          = (Inl e, (console @ [(''Cache fetch error:'', e)], s'))"
    by (simp add: withCache_def)
  have c: "snd (snd (withCache f policy (cons, t))) = snd (f t)"
    for f :: "'t \<Rightarrow> ('x + 'y) \<times> 't" and t and cons :: "(string \<times> 'x) list"
    by (cases "f t"; cases "fst (f t)") (auto simp: withCache_def)
  have d: "snd (counting fetchFn (n, s)) = (Suc n, snd (fetchFn s))"
    by (simp add: counting_def)
  show ?thesis
    using a b c [of fetchFn console s] c [of "counting fetchFn" console "(n, s)"] d by simp
qed

theorem withCache_contract_witness:
  "withCache (\<lambda>s :: unit. (Inr (42 :: nat) :: string + nat, s)) None ([], ())
     = (Inr (42, Some \<lparr>cacheControl = ''public, s-maxage=1800, stale-while-revalidate=86400, stale-if-error=604800'',
                       description = ''Product lists: 30 min CDN + 24hr stale''\<rparr>), ([], ()))
   \<and> withCache (\<lambda>s :: unit. (Inl ''connection lost'' :: string + nat, s)) (Some K_blog) ([], ())
     = (Inl ''connection lost'', ([(''Cache fetch error:'', ''connection lost'')], ()))"
  using
    withCache_contract [of "\<lambda>s :: unit. (Inr (42 :: nat) :: string + nat, s)" "()" None "[]"]
    withCache_contract [of "\<lambda>s :: unit. (Inl ''connection lost'' :: string + nat, s)" "()" "Some K_blog" "[]"]
  by (simp add: CACHE_POLICIES_def)

subsection \<open>The navigation bar\<close>

text \<open>
  C9. In the navigation bar the state \<open>open\<close> starts false and an activation of the toggle
  button flips it, so two activations in a row restore the state they started from; the
  mobile panel is part of the rendered output exactly when \<open>open\<close> holds; and the desktop
  row, which is always rendered, and the mobile panel each hold exactly the three links
  Products to \<^verbatim>\<open>/products\<close>, About to \<^verbatim>\<open>/about\<close>, Contact to \<^verbatim>\<open>/contact\<close>.
\<close>

theorem Navbar_toggle_and_links:
  "opened initial_state = False
   \<and> opened (activate st) = (\<not> opened st)
   \<and> activate (activate st) = st
   \<and> (mobile_panel \<in> set (elements (Navbar st)) \<longleftrightarrow> opened st)
   \<and> desktop_row \<in> set (elements (Navbar st))
   \<and> links desktop_row = [(''/products'', ''Products''), (''/about'', ''About''), (''/contact'', ''Contact'')]
   \<and> links mobile_panel = [(''/products'', ''Products''), (''/about'', ''About''), (''/contact'', ''Contact'')]
   \<and> links (Navbar st)
       = (''/'', []) # links desktop_row @ (if opened st then links mobile_panel else [])"
proof -
  have l1: "links desktop_row = [(''/products'', ''Products''), (''/about'', ''About''), (''/contact'', ''Contact'')]"
    by (simp add: links_def desktop_row_def Link_def)
  have l2: "links mobile_panel = [(''/products'', ''Products''), (''/about'', ''About''), (''/contact'', ''Contact'')]"
    by (simp add: links_def mobile_panel_def Link_def)
  have p: "mobile_panel \<in> set (elements (Navbar st)) \<longleftrightarrow> opened st"
    by (simp add: Navbar_def mobile_panel_def desktop_row_def logo_def toggle_button_def Link_def)
  have q: "desktop_row \<in> set (elements (Navbar st))"
    by (simp add: Navbar_def mobile_panel_def desktop_row_def logo_def toggle_button_def Link_def)
  have l3: "links (Navbar st)
       = (''/'', []) # links desktop_row @ (if opened st then links mobile_panel else [])"
    unfolding l1 l2
    by (simp add: links_def Navbar_def mobile_panel_def desktop_row_def logo_def toggle_button_def Link_def)
  show ?thesis
    using l1 l2 l3 p q by (simp add: initial_state_def activate_def onClick_def)
qed

theorem Navbar_toggle_and_links_witness:
  "activate (activate initial_state) = initial_state
   \<and> mobile_panel \<notin> set (elements (Navbar initial_state))
   \<and> mobile_panel \<in> set (elements (Navbar (activate initial_state)))"
  using Navbar_toggle_and_links [of initial_state] Navbar_toggle_and_links [of "activate initial_state"]
  by simp

subsection \<open>Text replacement\<close>

lemma replace_absent: "\<not> sublist p s \<Longrightarrow> replace s p r = s"
proof (induction s)
  case Nil
  then show ?case by auto
next
  case (Cons c cs)
  then show ?case by (auto simp: sublist_Cons_right)
qed

lemma replace_first:
  "sublist p s \<Longrightarrow>
     \<exists>u v. s = u @ p @ v \<and> replace s p r = u @ r @ v
       \<and> (\<forall>u' v'. s = u' @ p @ v' \<longrightarrow> length u \<le> length u')"
proof (induction s)
  case Nil
  then show ?case by auto
next
  case (Cons c cs)
  show ?case
  proof (cases "prefix p (c # cs)")
    case True
    then obtain v where v: "c # cs = p @ v" by (auto simp: prefix_def)
    then have "replace (c # cs) p r = [] @ r @ v"
      using True by (metis append_Nil append_eq_conv_conj replace.simps(2))
    with v show ?thesis by (metis append_Nil le0 list.size(3))
  next
    case False
    with Cons.prems have "sublist p cs" by (simp add: sublist_Cons_right)
    from Cons.IH [OF this] obtain u v where uv: "cs = u @ p @ v" "replace cs p r = u @ r @ v"
      "\<forall>u' v'. cs = u' @ p @ v' \<longrightarrow> length u \<le> length u'" by blast
    have min: "length (c # u) \<le> length u'" if "c # cs = u' @ p @ v'" for u' v'
    proof (cases u')
      case Nil
      with that False show ?thesis by (auto simp: prefix_def)
    next
      case (Cons d u'')
      with that uv(3) show ?thesis by auto
    qed
    have "c # cs = (c # u) @ p @ v" "replace (c # cs) p r = (c # u) @ r @ v"
      using uv False by auto
    with min show ?thesis by blast
  qed
qed

lemma occurrences_apart:
  assumes eq: "u @ (c # p) @ v = x @ (c # q) @ w" and cp: "c \<notin> set p" and cq: "c \<notin> set q"
  shows "(\<exists>x'. x = u @ (c # p) @ x' \<and> v = x' @ (c # q) @ w)
       \<or> (\<exists>w'. w = w' @ (c # p) @ v \<and> u = x @ (c # q) @ w')
       \<or> (u = x \<and> p @ v = q @ w)"
proof -
  have half: "(\<exists>w'. w = w' @ (c # p) @ v \<and> u = x @ (c # q) @ w') \<or> (t = [] \<and> p @ v = q @ w)"
    if "u = x @ t" "t @ (c # p) @ v = (c # q) @ w" "c \<notin> set q"
    for u x t p q v w
  proof (cases t)
    case Nil
    with that show ?thesis by simp
  next
    case (Cons d t')
    with that have d: "d = c" and t': "t' @ (c # p) @ v = q @ w" by auto
    from t' obtain s where "(t' = q @ s \<and> s @ (c # p) @ v = w) \<or> (t' @ s = q \<and> (c # p) @ v = s @ w)"
      by (auto simp: append_eq_append_conv2)
    then show ?thesis
    proof
      assume "t' = q @ s \<and> s @ (c # p) @ v = w"
      with that(1) Cons d show ?thesis by auto
    next
      assume a: "t' @ s = q \<and> (c # p) @ v = s @ w"
      show ?thesis
      proof (cases s)
        case Nil
        with a that(1) Cons d show ?thesis by auto
      next
        case (Cons e s')
        with a have "e = c" by auto
        with a Cons that(3) show ?thesis by auto
      qed
    qed
  qed
  from eq obtain t where "(u = x @ t \<and> t @ (c # p) @ v = (c # q) @ w) \<or> (u @ t = x \<and> (c # p) @ v = t @ (c # q) @ w)"
    by (auto simp: append_eq_append_conv2)
  then show ?thesis
  proof
    assume "u = x @ t \<and> t @ (c # p) @ v = (c # q) @ w"
    with half [of u x t p v q w] cq show ?thesis by auto
  next
    assume "u @ t = x \<and> (c # p) @ v = t @ (c # q) @ w"
    with half [of x u t q w p v] cp show ?thesis by auto
  qed
qed

lemma replace_at_first:
  assumes "c \<notin> set q" "\<not> sublist (c # q) x"
  shows "replace (x @ (c # q) @ y) (c # q) r = x @ r @ y"
proof -
  have "sublist (c # q) (x @ (c # q) @ y)" by (rule sublist_appendI)
  from replace_first [OF this, of r] obtain u v where
    uv: "x @ (c # q) @ y = u @ (c # q) @ v" "replace (x @ (c # q) @ y) (c # q) r = u @ r @ v"
      "\<forall>u' v'. x @ (c # q) @ y = u' @ (c # q) @ v' \<longrightarrow> length u \<le> length u'" by blast
  from uv(3) have le: "length u \<le> length x" by blast
  from occurrences_apart [OF uv(1) [symmetric] assms(1) assms(1)]
  consider x' where "x = u @ (c # q) @ x'" | w' where "u = x @ (c # q) @ w'" | "u = x" "q @ v = q @ y"
    by blast
  then show ?thesis
  proof cases
    case 1
    then have "sublist (c # q) x" by (metis sublist_appendI)
    with assms(2) show ?thesis by simp
  next
    case 2
    with le show ?thesis by simp
  next
    case 3
    with uv(2) show ?thesis by simp
  qed
qed

lemma replace_keeps_second:
  "sublist p (replace (x @ p @ y @ p @ z) p r)"
proof -
  let ?s = "x @ p @ y @ p @ z"
  have "sublist p ?s" by (rule sublist_appendI)
  from replace_first [OF this, of r] obtain u v where
    uv: "?s = u @ p @ v" "replace ?s p r = u @ r @ v"
      "\<forall>u' v'. ?s = u' @ p @ v' \<longrightarrow> length u \<le> length u'" by blast
  from uv(3) have le: "length u \<le> length x" by blast
  have "v = drop (length u + length p) ?s"
    using uv(1) by (metis append.assoc append_eq_conv_conj length_append)
  also have "?s = (x @ p) @ (y @ p @ z)" by simp
  also have "drop (length u + length p) ((x @ p) @ (y @ p @ z))
      = drop (length u + length p) (x @ p) @ (y @ p @ z)"
    using le by simp
  finally have "v = (drop (length u + length p) (x @ p) @ y) @ p @ z" by simp
  then have "sublist p v" by (metis sublist_appendI)
  then have "sublist p ((u @ r) @ v)" by (metis sublist_append)
  with uv(2) show ?thesis by simp
qed

lemma no_alignment:
  "''self-tapping -screws'' @ v \<noteq> ''self-tapping%20-screws'' @ w"
  "''self-tapping%20-screws'' @ v \<noteq> ''self-tapping-screws'' @ w"
  "''self-tapping -screws'' @ v \<noteq> ''self-tapping-screws'' @ w"
  by simp_all

lemma no_slash:
  "CHR ''/'' \<notin> set ''self-tapping -screws''"
  "CHR ''/'' \<notin> set ''self-tapping%20-screws''"
  "CHR ''/'' \<notin> set ''self-tapping-screws''"
  by simp_all

lemma space_variant_survives:
  assumes "sublist ''/self-tapping -screws'' s"
  shows "sublist ''/self-tapping -screws'' (replace s ''/self-tapping%20-screws'' r)"
proof (cases "sublist ''/self-tapping%20-screws'' s")
  case False
  with assms show ?thesis by (simp add: replace_absent)
next
  case True
  from replace_first [OF this, of r] obtain u v where
    uv: "s = u @ ''/self-tapping%20-screws'' @ v"
      "replace s ''/self-tapping%20-screws'' r = u @ r @ v" by blast
  from assms obtain ps ss where "s = ps @ ''/self-tapping -screws'' @ ss"
    by (auto simp: sublist_def)
  with uv(1) have "ps @ (CHR ''/'' # ''self-tapping -screws'') @ ss
      = u @ (CHR ''/'' # ''self-tapping%20-screws'') @ v" by simp
  from occurrences_apart [OF this no_slash(1) no_slash(2)] no_alignment(1) [of ss v]
  consider x' where "u = ps @ ''/self-tapping -screws'' @ x'"
    | w' where "v = w' @ ''/self-tapping -screws'' @ ss"
    by auto
  then have "sublist ''/self-tapping -screws'' u \<or> sublist ''/self-tapping -screws'' v"
    by cases (metis sublist_appendI)+
  then have "sublist ''/self-tapping -screws'' (u @ r @ v)"
    by (metis sublist_append)
  with uv(2) show ?thesis by simp
qed

lemma encoded_variant_twice:
  assumes "s = x @ ''/self-tapping%20-screws'' @ y @ ''/self-tapping%20-screws'' @ z"
  shows "\<exists>x1 y1 z1. replace s ''/self-tapping -screws'' r
     = x1 @ ''/self-tapping%20-screws'' @ y1 @ ''/self-tapping%20-screws'' @ z1"
proof (cases "sublist ''/self-tapping -screws'' s")
  case False
  with assms show ?thesis by (metis replace_absent)
next
  case True
  from replace_first [OF this, of r] obtain u v where
    uv: "s = u @ ''/self-tapping -screws'' @ v"
      "replace s ''/self-tapping -screws'' r = u @ r @ v" by blast
  with assms have "u @ (CHR ''/'' # ''self-tapping -screws'') @ v
      = x @ (CHR ''/'' # ''self-tapping%20-screws'')
          @ (y @ ''/self-tapping%20-screws'' @ z)" by simp
  from occurrences_apart [OF this no_slash(1) no_slash(2)]
    no_alignment(1) [of v "y @ ''/self-tapping%20-screws'' @ z"]
  consider x' where "x = u @ ''/self-tapping -screws'' @ x'"
      "v = x' @ ''/self-tapping%20-screws'' @ y @ ''/self-tapping%20-screws'' @ z"
    | w' where "y @ ''/self-tapping%20-screws'' @ z = w' @ ''/self-tapping -screws'' @ v"
      "u = x @ ''/self-tapping%20-screws'' @ w'"
    by auto
  then show ?thesis
  proof cases
    case 1
    with uv(2) have "replace s ''/self-tapping -screws'' r
      = (u @ r @ x') @ ''/self-tapping%20-screws'' @ y @ ''/self-tapping%20-screws'' @ z"
      by simp
    then show ?thesis by blast
  next
    case 2
    from 2(1) have "w' @ (CHR ''/'' # ''self-tapping -screws'') @ v
      = y @ (CHR ''/'' # ''self-tapping%20-screws'') @ z" by simp
    from occurrences_apart [OF this no_slash(1) no_slash(2)] no_alignment(1) [of v z]
    consider y' where "y = w' @ ''/self-tapping -screws'' @ y'"
        "v = y' @ ''/self-tapping%20-screws'' @ z"
      | z' where "z = z' @ ''/self-tapping -screws'' @ v"
        "w' = y @ ''/self-tapping%20-screws'' @ z'"
      by auto
    then show ?thesis
    proof cases
      case 1
      with uv(2) 2(2) have "replace s ''/self-tapping -screws'' r
        = x @ ''/self-tapping%20-screws'' @ (w' @ r @ y') @ ''/self-tapping%20-screws'' @ z"
        by simp
      then show ?thesis by blast
    next
      case 2
      with uv(2) \<open>u = x @ ''/self-tapping%20-screws'' @ w'\<close>
      have "replace s ''/self-tapping -screws'' r
        = x @ ''/self-tapping%20-screws'' @ y @ ''/self-tapping%20-screws'' @ (z' @ r @ v)"
        by simp
      then show ?thesis by blast
    qed
  qed
qed

lemma encoded_variant_not_created:
  assumes "\<not> sublist ''/self-tapping%20-screws'' x" "\<not> sublist ''/self-tapping%20-screws'' y"
  shows "\<not> sublist ''/self-tapping%20-screws'' (x @ ''/self-tapping-screws'' @ y)"
proof
  assume "sublist ''/self-tapping%20-screws'' (x @ ''/self-tapping-screws'' @ y)"
  then obtain ps ss where "x @ ''/self-tapping-screws'' @ y = ps @ ''/self-tapping%20-screws'' @ ss"
    by (auto simp: sublist_def)
  then have "ps @ (CHR ''/'' # ''self-tapping%20-screws'') @ ss
      = x @ (CHR ''/'' # ''self-tapping-screws'') @ y" by simp
  from occurrences_apart [OF this no_slash(2) no_slash(3)] no_alignment(2) [of ss y]
  consider x' where "x = ps @ ''/self-tapping%20-screws'' @ x'"
    | w' where "y = w' @ ''/self-tapping%20-screws'' @ ss"
    by auto
  then have "sublist ''/self-tapping%20-screws'' x \<or> sublist ''/self-tapping%20-screws'' y"
    by cases (metis sublist_appendI)+
  with assms show False by blast
qed

lemma redirect_pathname_space:
  assumes "\<not> sublist ''/self-tapping -screws'' x"
    and "\<not> sublist ''/self-tapping%20-screws'' (x @ ''/self-tapping -screws'' @ y)"
  shows "redirect_pathname (x @ ''/self-tapping -screws'' @ y) = x @ ''/self-tapping-screws'' @ y"
proof -
  have 1: "replace (x @ ''/self-tapping -screws'' @ y) ''/self-tapping -screws'' ''/self-tapping-screws''
      = x @ ''/self-tapping-screws'' @ y"
    using replace_at_first [OF no_slash(1), of x y "''/self-tapping-screws''"] assms(1) by simp
  from assms(2) have "\<not> sublist ''/self-tapping%20-screws'' x"
    "\<not> sublist ''/self-tapping%20-screws'' y"
    by (metis sublist_append)+
  then have "\<not> sublist ''/self-tapping%20-screws'' (x @ ''/self-tapping-screws'' @ y)"
    by (rule encoded_variant_not_created)
  then show ?thesis
    unfolding redirect_pathname_def 1 by (rule replace_absent)
qed

lemma redirect_pathname_encoded:
  assumes "\<not> sublist ''/self-tapping%20-screws'' x"
    and "\<not> sublist ''/self-tapping -screws'' (x @ ''/self-tapping%20-screws'' @ y)"
  shows "redirect_pathname (x @ ''/self-tapping%20-screws'' @ y) = x @ ''/self-tapping-screws'' @ y"
proof -
  have 1: "replace (x @ ''/self-tapping%20-screws'' @ y) ''/self-tapping -screws'' ''/self-tapping-screws''
      = x @ ''/self-tapping%20-screws'' @ y"
    using assms(2) by (rule replace_absent)
  show ?thesis
    unfolding redirect_pathname_def 1
    using replace_at_first [OF no_slash(2), of x y "''/self-tapping-screws''"] assms(1) by simp
qed

lemma redirect_pathname_keeps_second:
  "sublist ''/self-tapping -screws''
     (redirect_pathname (x @ ''/self-tapping -screws'' @ y @ ''/self-tapping -screws'' @ z))"
  "sublist ''/self-tapping%20-screws''
     (redirect_pathname (x @ ''/self-tapping%20-screws'' @ y @ ''/self-tapping%20-screws'' @ z))"
proof -
  show "sublist ''/self-tapping -screws''
     (redirect_pathname (x @ ''/self-tapping -screws'' @ y @ ''/self-tapping -screws'' @ z))"
    unfolding redirect_pathname_def
    by (rule space_variant_survives) (rule replace_keeps_second)
  obtain x1 y1 z1 where
    "replace (x @ ''/self-tapping%20-screws'' @ y @ ''/self-tapping%20-screws'' @ z)
        ''/self-tapping -screws'' ''/self-tapping-screws''
     = x1 @ ''/self-tapping%20-screws'' @ y1 @ ''/self-tapping%20-screws'' @ z1"
    using encoded_variant_twice [OF refl] by blast
  then show "sublist ''/self-tapping%20-screws''
     (redirect_pathname (x @ ''/self-tapping%20-screws'' @ y @ ''/self-tapping%20-screws'' @ z))"
    unfolding redirect_pathname_def
    using replace_keeps_second [of "''/self-tapping%20-screws''" x1 y1 z1] by simp
qed

subsection \<open>The request middleware\<close>

lemma lower_middleware [simp]:
  "toLowerCase ''Location'' = ''location''"
  "toLowerCase ''x-middleware-next'' = ''x-middleware-next''"
  by (simp_all add: toLowerCase_def toLowerCase_char_def)

lemma encode_path_append: "encode_path (x @ y) = encode_path x @ encode_path y"
  by (simp add: encode_path_def)

lemma encode_path_variants:
  "encode_path ''/self-tapping -screws'' = ''/self-tapping%20-screws''"
  "encode_path ''/self-tapping%20-screws'' = ''/self-tapping%20-screws''"
  "encode_path ''/self-tapping-screws'' = ''/self-tapping-screws''"
  by (simp_all add: encode_path_def percent_encode_char_def path_percent_encode_set_def
      HEX_digit_def)

lemma encode_path_unreserved:
  "\<forall>c\<in>set s. \<not> path_percent_encode_set c \<Longrightarrow> encode_path s = s"
  by (induction s) (simp_all add: encode_path_def percent_encode_char_def)

lemma HEX_digit_unreserved: "n < 16 \<Longrightarrow> \<not> path_percent_encode_set (HEX_digit n)"
proof -
  have "list_all (\<lambda>k. \<not> path_percent_encode_set (HEX_digit k)) [0..<16]"
    by code_simp
  moreover assume "n < 16"
  ultimately show ?thesis
    by (simp add: list_all_iff)
qed

lemma percent_encode_char_unreserved:
  "d \<in> set (percent_encode_char c) \<Longrightarrow> \<not> path_percent_encode_set d"
proof (cases "path_percent_encode_set c")
  case False
  assume "d \<in> set (percent_encode_char c)"
  with False show ?thesis by (simp add: percent_encode_char_def)
next
  case True
  have "(of_char c :: nat) < 256"
    by (metis of_char_mod_256 mod_less_divisor zero_less_numeral)
  then have "(of_char c :: nat) div 16 < 16" "(of_char c :: nat) mod 16 < 16"
    by presburger+
  then have h: "\<not> path_percent_encode_set (HEX_digit ((of_char c :: nat) div 16))"
    "\<not> path_percent_encode_set (HEX_digit ((of_char c :: nat) mod 16))"
    by (simp_all add: HEX_digit_unreserved)
  have p: "\<not> path_percent_encode_set CHR ''%''"
    by (simp add: path_percent_encode_set_def)
  assume "d \<in> set (percent_encode_char c)"
  with True h p show ?thesis by (auto simp: percent_encode_char_def)
qed

lemma encode_path_is_encoded:
  "d \<in> set (encode_path raw) \<Longrightarrow> \<not> path_percent_encode_set d"
  by (auto simp: encode_path_def percent_encode_char_unreserved)

lemma encoded_has_no_space: "CHR '' '' \<notin> set (encode_path raw)"
proof
  assume "CHR '' '' \<in> set (encode_path raw)"
  then have "\<not> path_percent_encode_set CHR '' ''" by (rule encode_path_is_encoded)
  then show False by (simp add: path_percent_encode_set_def)
qed

lemma encoded_excludes_space_variant:
  "\<not> includes_str (encode_path raw) ''/self-tapping -screws''"
proof
  assume "includes_str (encode_path raw) ''/self-tapping -screws''"
  then obtain u v where "encode_path raw = u @ ''/self-tapping -screws'' @ v"
    by (auto simp: includes_str_def sublist_def)
  then have "CHR '' '' \<in> set (encode_path raw)" by simp
  with encoded_has_no_space show False by blast
qed

lemma set_replace: "set (replace s p r) \<subseteq> set s \<union> set r"
proof (induction s)
  case Nil
  then show ?case by auto
next
  case (Cons c cs)
  have "set (drop (length p) (c # cs)) \<subseteq> set (c # cs)"
    by (rule set_drop_subset)
  with Cons show ?case by auto
qed

lemma canonical_unreserved: "\<forall>c\<in>set ''/self-tapping-screws''. \<not> path_percent_encode_set c"
  by (simp add: path_percent_encode_set_def)

lemma redirect_pathname_stays_encoded:
  "encode_path (redirect_pathname (encode_path raw)) = redirect_pathname (encode_path raw)"
proof (rule encode_path_unreserved, rule ballI)
  fix c
  assume "c \<in> set (redirect_pathname (encode_path raw))"
  then have "c \<in> set (encode_path raw) \<or> c \<in> set ''/self-tapping-screws''"
    unfolding redirect_pathname_def
    using set_replace [of "replace (encode_path raw) ''/self-tapping -screws'' ''/self-tapping-screws''"
        "''/self-tapping%20-screws''" "''/self-tapping-screws''"]
      set_replace [of "encode_path raw" "''/self-tapping -screws''" "''/self-tapping-screws''"]
    by blast
  then show "\<not> path_percent_encode_set c"
    using encode_path_is_encoded canonical_unreserved by blast
qed

lemma redirect_response_shape:
  assumes "includes_str (pathname (nextUrl request)) ''/self-tapping -screws''
      \<or> includes_str (pathname (nextUrl request)) ''/self-tapping%20-screws''"
  shows "middleware request =
     \<lparr>status = 301,
      headers = [''location'' \<mapsto>
         href ((nextUrl request)
                 \<lparr>pathname := encode_path (redirect_pathname (pathname (nextUrl request)))\<rparr>)],
      body = None\<rparr>"
  using assms
  by (simp add: middleware_def Let_def NextResponse_redirect_def headers_set_def set_pathname_def)

lemma path_classes_exclusive:
  "\<not> (p = ''/'' \<and> startsWith p ''/blog'')"
  "\<not> (p = ''/'' \<and> (startsWith p ''/products'' \<or> startsWith p ''/category''))"
  "\<not> (startsWith p ''/blog'' \<and> (startsWith p ''/products'' \<or> startsWith p ''/category''))"
  by (auto simp: startsWith_def prefix_def)

lemma passing_response_shape:
  assumes "\<not> includes_str (pathname (nextUrl request)) ''/self-tapping -screws''"
    and "\<not> includes_str (pathname (nextUrl request)) ''/self-tapping%20-screws''"
  shows "status (middleware request) = 200"
    and "headers_get (headers (middleware request)) ''Location'' = None"
    and "headers_get (headers (middleware request)) ''Cache-Control''
       = (if pathname (nextUrl request) = ''/''
          then Some ''public, s-maxage=60, stale-while-revalidate=300, stale-if-error=86400''
          else if startsWith (pathname (nextUrl request)) ''/blog''
          then Some ''public, s-maxage=3600, stale-while-revalidate=86400, stale-if-error=604800''
          else if startsWith (pathname (nextUrl request)) ''/products''
                  \<or> startsWith (pathname (nextUrl request)) ''/category''
          then Some ''public, s-maxage=1800, stale-while-revalidate=86400, stale-if-error=604800''
          else None)"
  using assms path_classes_exclusive [of "pathname (nextUrl request)"]
  by (auto simp: middleware_def Let_def NextResponse_next_def headers_set_def headers_get_def)

text \<open>
  C2. For a request path that is not redirected the middleware returns the pass-through
  response with a \<^verbatim>\<open>Cache-Control\<close> value fixed by the class of the path: the path \<^verbatim>\<open>/\<close>
  gets the 60-second directive, a path starting with \<^verbatim>\<open>/blog\<close> the 3600-second one, a
  path starting with \<^verbatim>\<open>/products\<close> or \<^verbatim>\<open>/category\<close> the 1800-second one, every other path
  none. No two of the three classes hold of the same path, so at most one of the three
  assignments of the header fires, and exactly one for a path of one of the classes.
\<close>

theorem middleware_cache_control:
  assumes "\<not> includes_str (pathname (nextUrl request)) ''/self-tapping -screws''"
    and "\<not> includes_str (pathname (nextUrl request)) ''/self-tapping%20-screws''"
    and "p = pathname (nextUrl request)"
  shows "status (middleware request) = 200
    \<and> headers_get (headers (middleware request)) ''Cache-Control''
       = (if p = ''/''
          then Some ''public, s-maxage=60, stale-while-revalidate=300, stale-if-error=86400''
          else if startsWith p ''/blog''
          then Some ''public, s-maxage=3600, stale-while-revalidate=86400, stale-if-error=604800''
          else if startsWith p ''/products'' \<or> startsWith p ''/category''
          then Some ''public, s-maxage=1800, stale-while-revalidate=86400, stale-if-error=604800''
          else None)
    \<and> \<not> (p = ''/'' \<and> startsWith p ''/blog'')
    \<and> \<not> (p = ''/'' \<and> (startsWith p ''/products'' \<or> startsWith p ''/category''))
    \<and> \<not> (startsWith p ''/blog'' \<and> (startsWith p ''/products'' \<or> startsWith p ''/category''))
    \<and> cache_assignments p \<le> 1
    \<and> (cache_assignments p = 1
         \<longleftrightarrow> p = ''/'' \<or> startsWith p ''/blog'' \<or> startsWith p ''/products''
               \<or> startsWith p ''/category'')"
proof -
  have n: "cache_assignments p \<le> 1"
    and e: "cache_assignments p = 1
         \<longleftrightarrow> p = ''/'' \<or> startsWith p ''/blog'' \<or> startsWith p ''/products''
               \<or> startsWith p ''/category''"
    using path_classes_exclusive [of p] by (auto simp: cache_assignments_def)
  show ?thesis
    using passing_response_shape(1,3) [OF assms(1,2)] path_classes_exclusive [of p] n e
    unfolding assms(3) by blast
qed

lemma encode_path_examples:
  "encode_path ''/'' = ''/''"
  "encode_path ''/blog/latest'' = ''/blog/latest''"
  "encode_path ''/products/anything'' = ''/products/anything''"
  "encode_path ''/contact'' = ''/contact''"
  "encode_path ''/self-tapping-screws'' = ''/self-tapping-screws''"
  "encode_path ''/self-tapping -screws-set'' = ''/self-tapping%20-screws-set''"
  "encode_path ''/self-tapping%20-screws-set'' = ''/self-tapping%20-screws-set''"
  "encode_path ''/self-tapping-screws-set'' = ''/self-tapping-screws-set''"
  by code_simp+

lemma no_redirect_examples:
  "\<not> includes_str ''/'' ''/self-tapping -screws''"
  "\<not> includes_str ''/'' ''/self-tapping%20-screws''"
  "\<not> includes_str ''/blog/latest'' ''/self-tapping -screws''"
  "\<not> includes_str ''/blog/latest'' ''/self-tapping%20-screws''"
  "\<not> includes_str ''/products/anything'' ''/self-tapping -screws''"
  "\<not> includes_str ''/products/anything'' ''/self-tapping%20-screws''"
  "\<not> includes_str ''/contact'' ''/self-tapping -screws''"
  "\<not> includes_str ''/contact'' ''/self-tapping%20-screws''"
  "\<not> includes_str ''/self-tapping-screws'' ''/self-tapping -screws''"
  "\<not> includes_str ''/self-tapping-screws'' ''/self-tapping%20-screws''"
  by (simp_all add: includes_str_def sublist_Cons_right)

theorem middleware_cache_control_witness:
  "headers_get (headers (middleware (request_for ''/'' []))) ''Cache-Control''
     = Some ''public, s-maxage=60, stale-while-revalidate=300, stale-if-error=86400''
   \<and> headers_get (headers (middleware (request_for ''/blog/latest'' []))) ''Cache-Control''
     = Some ''public, s-maxage=3600, stale-while-revalidate=86400, stale-if-error=604800''
   \<and> headers_get (headers (middleware (request_for ''/products/anything'' []))) ''Cache-Control''
     = Some ''public, s-maxage=1800, stale-while-revalidate=86400, stale-if-error=604800''
   \<and> headers_get (headers (middleware (request_for ''/contact'' []))) ''Cache-Control'' = None
   \<and> cache_assignments ''/blog/latest'' = 1 \<and> cache_assignments ''/contact'' = 0"
  using
    middleware_cache_control [of "request_for ''/'' []" "''/''"]
    middleware_cache_control [of "request_for ''/blog/latest'' []" "''/blog/latest''"]
    middleware_cache_control [of "request_for ''/products/anything'' []" "''/products/anything''"]
    middleware_cache_control [of "request_for ''/contact'' []" "''/contact''"]
    no_redirect_examples
  by (simp add: request_for_def startsWith_def cache_assignments_def encode_path_examples)

text \<open>
  C6. A request whose path contains \<^verbatim>\<open>/self-tapping -screws\<close> or
  \<^verbatim>\<open>/self-tapping%20-screws\<close> is answered with a 301 redirect to the request URL with the
  rewritten path, and the redirect response carries no \<^verbatim>\<open>Cache-Control\<close> header; where
  the path has one of the two texts (first at the place given, the other nowhere), the
  rewritten path is the path with that text replaced by \<^verbatim>\<open>/self-tapping-screws\<close>, and
  the pathname setter leaves the rewritten path of a percent-encoded pathname as it is.
  A request whose path contains neither text gets the pass-through response, status 200
  and no \<^verbatim>\<open>Location\<close>.
\<close>

theorem middleware_redirect:
  assumes "p = pathname (nextUrl request)"
  shows "(if includes_str p ''/self-tapping -screws'' \<or> includes_str p ''/self-tapping%20-screws''
      then middleware request =
             \<lparr>status = 301,
              headers = [''location'' \<mapsto>
                href ((nextUrl request)\<lparr>pathname := encode_path (redirect_pathname p)\<rparr>)],
              body = None\<rparr>
           \<and> headers_get (headers (middleware request)) ''Cache-Control'' = None
      else status (middleware request) = 200
           \<and> headers_get (headers (middleware request)) ''Location'' = None)
    \<and> (\<forall>x y. p = x @ ''/self-tapping -screws'' @ y \<and> \<not> includes_str x ''/self-tapping -screws''
            \<and> \<not> includes_str p ''/self-tapping%20-screws''
          \<longrightarrow> redirect_pathname p = x @ ''/self-tapping-screws'' @ y)
    \<and> (\<forall>x y. p = x @ ''/self-tapping%20-screws'' @ y
            \<and> \<not> includes_str x ''/self-tapping%20-screws''
            \<and> \<not> includes_str p ''/self-tapping -screws''
          \<longrightarrow> redirect_pathname p = x @ ''/self-tapping-screws'' @ y)
    \<and> (\<forall>raw. p = encode_path raw \<longrightarrow> encode_path (redirect_pathname p) = redirect_pathname p)"
proof -
  have a: "middleware request =
             \<lparr>status = 301,
              headers = [''location'' \<mapsto>
                href ((nextUrl request)\<lparr>pathname := encode_path (redirect_pathname p)\<rparr>)],
              body = None\<rparr>
           \<and> headers_get (headers (middleware request)) ''Cache-Control'' = None"
    if "includes_str p ''/self-tapping -screws'' \<or> includes_str p ''/self-tapping%20-screws''"
    using redirect_response_shape [of request] that
    unfolding assms by (simp add: headers_get_def)
  have b: "status (middleware request) = 200
           \<and> headers_get (headers (middleware request)) ''Location'' = None"
    if "\<not> (includes_str p ''/self-tapping -screws'' \<or> includes_str p ''/self-tapping%20-screws'')"
    using passing_response_shape(1,2) [of request] that
    unfolding assms by simp
  have c: "\<forall>x y. p = x @ ''/self-tapping -screws'' @ y \<and> \<not> includes_str x ''/self-tapping -screws''
            \<and> \<not> includes_str p ''/self-tapping%20-screws''
          \<longrightarrow> redirect_pathname p = x @ ''/self-tapping-screws'' @ y"
  proof (intro allI impI, elim conjE)
    fix x y
    assume h: "p = x @ ''/self-tapping -screws'' @ y"
      "\<not> includes_str x ''/self-tapping -screws''"
      "\<not> includes_str p ''/self-tapping%20-screws''"
    from h(2) h(3) show "redirect_pathname p = x @ ''/self-tapping-screws'' @ y"
      unfolding h(1) includes_str_def by (rule redirect_pathname_space)
  qed
  have d: "\<forall>x y. p = x @ ''/self-tapping%20-screws'' @ y
            \<and> \<not> includes_str x ''/self-tapping%20-screws''
            \<and> \<not> includes_str p ''/self-tapping -screws''
          \<longrightarrow> redirect_pathname p = x @ ''/self-tapping-screws'' @ y"
  proof (intro allI impI, elim conjE)
    fix x y
    assume h: "p = x @ ''/self-tapping%20-screws'' @ y"
      "\<not> includes_str x ''/self-tapping%20-screws''"
      "\<not> includes_str p ''/self-tapping -screws''"
    from h(2) h(3) show "redirect_pathname p = x @ ''/self-tapping-screws'' @ y"
      unfolding h(1) includes_str_def by (rule redirect_pathname_encoded)
  qed
  have ab: "if includes_str p ''/self-tapping -screws'' \<or> includes_str p ''/self-tapping%20-screws''
      then middleware request =
             \<lparr>status = 301,
              headers = [''location'' \<mapsto>
                href ((nextUrl request)\<lparr>pathname := encode_path (redirect_pathname p)\<rparr>)],
              body = None\<rparr>
           \<and> headers_get (headers (middleware request)) ''Cache-Control'' = None
      else status (middleware request) = 200
           \<and> headers_get (headers (middleware request)) ''Location'' = None"
  proof (cases "includes_str p ''/self-tapping -screws'' \<or> includes_str p ''/self-tapping%20-screws''")
    case True
    show ?thesis by (subst if_P [OF True]) (rule a [OF True])
  next
    case False
    show ?thesis by (subst if_not_P [OF False]) (rule b [OF False])
  qed
  have e: "\<forall>raw. p = encode_path raw \<longrightarrow> encode_path (redirect_pathname p) = redirect_pathname p"
    using redirect_pathname_stays_encoded by blast
  show ?thesis
    by (rule conjI [OF ab conjI [OF c conjI [OF d e]]])
qed

lemma redirect_examples:
  "redirect_pathname ''/self-tapping -screws-set'' = ''/self-tapping-screws-set''"
  "redirect_pathname ''/self-tapping%20-screws-set'' = ''/self-tapping-screws-set''"
  "includes_str ''/self-tapping -screws-set'' ''/self-tapping -screws''"
  "includes_str ''/self-tapping%20-screws-set'' ''/self-tapping%20-screws''"
  by (simp_all add: redirect_pathname_def includes_str_def sublist_Cons_right)

theorem middleware_redirect_witness:
  "middleware (request_for ''/self-tapping -screws-set'' [])
     = \<lparr>status = 301,
        headers = [''location'' \<mapsto> ''https://localhost:3000/self-tapping-screws-set''],
        body = None\<rparr>
   \<and> middleware (request_for ''/self-tapping%20-screws-set'' [])
     = \<lparr>status = 301,
        headers = [''location'' \<mapsto> ''https://localhost:3000/self-tapping-screws-set''],
        body = None\<rparr>
   \<and> status (middleware (request_for ''/self-tapping-screws'' [])) = 200
   \<and> headers_get (headers (middleware (request_for ''/self-tapping-screws'' []))) ''Location''
       = None"
  using
    middleware_redirect [of "''/self-tapping%20-screws-set''"
      "request_for ''/self-tapping -screws-set'' []"]
    middleware_redirect [of "''/self-tapping%20-screws-set''"
      "request_for ''/self-tapping%20-screws-set'' []"]
    middleware_redirect [of "''/self-tapping-screws''" "request_for ''/self-tapping-screws'' []"]
    redirect_examples no_redirect_examples(9,10)
  by (simp add: request_for_def href_def encode_path_examples)

lemma encoded_variant_present:
  assumes "V = ''/self-tapping -screws'' \<or> V = ''/self-tapping%20-screws''"
  shows "encode_path (x @ V @ y) = encode_path x @ ''/self-tapping%20-screws'' @ encode_path y"
  using assms by (auto simp: encode_path_append encode_path_variants)

lemma redirect_pathname_of_encoded:
  "redirect_pathname (encode_path raw)
     = replace (encode_path raw) ''/self-tapping%20-screws'' ''/self-tapping-screws''"
  unfolding redirect_pathname_def
  using encoded_excludes_space_variant [of raw]
  by (simp add: includes_str_def replace_absent)

text \<open>
  C10. The target of the redirect is the request URL with its path rewritten and nothing
  else changed: protocol, host, query string and fragment stand in the \<^verbatim>\<open>Location\<close> as
  they stand in the request URL. The pathname the middleware reads is percent-encoded, so
  both malformed texts are in it as \<^verbatim>\<open>/self-tapping%20-screws\<close>, and of these only the
  first occurrence is replaced: what follows it is kept as it is, and a requested path
  with two malformed texts, of either form each, is redirected to a path that still
  contains the second one.
\<close>

theorem redirect_only_rewrites_first_occurrence:
  assumes "pathname (nextUrl request) = encode_path raw"
    and "includes_str (encode_path raw) ''/self-tapping -screws''
       \<or> includes_str (encode_path raw) ''/self-tapping%20-screws''"
  shows "status (middleware request) = 301
    \<and> href (nextUrl request)
        = protocol (nextUrl request) @ ''//'' @ host (nextUrl request)
            @ encode_path raw
            @ search (nextUrl request) @ hash (nextUrl request)
    \<and> headers_get (headers (middleware request)) ''Location''
        = Some (protocol (nextUrl request) @ ''//'' @ host (nextUrl request)
                  @ redirect_pathname (encode_path raw)
                  @ search (nextUrl request) @ hash (nextUrl request))
    \<and> redirect_pathname (encode_path raw)
        = replace (encode_path raw) ''/self-tapping%20-screws'' ''/self-tapping-screws''
    \<and> (\<forall>x y. encode_path raw = x @ ''/self-tapping%20-screws'' @ y
            \<and> \<not> includes_str x ''/self-tapping%20-screws''
          \<longrightarrow> redirect_pathname (encode_path raw) = x @ ''/self-tapping-screws'' @ y)
    \<and> (\<forall>x y z V W. raw = x @ V @ y @ W @ z
            \<and> (V = ''/self-tapping -screws'' \<or> V = ''/self-tapping%20-screws'')
            \<and> (W = ''/self-tapping -screws'' \<or> W = ''/self-tapping%20-screws'')
          \<longrightarrow> includes_str (redirect_pathname (encode_path raw)) ''/self-tapping%20-screws'')"
proof -
  have m: "middleware request =
     \<lparr>status = 301,
      headers = [''location'' \<mapsto>
         href ((nextUrl request)\<lparr>pathname := encode_path (redirect_pathname (encode_path raw))\<rparr>)],
      body = None\<rparr>"
    using redirect_response_shape [of request] assms by simp
  have s: "status (middleware request) = 301"
    by (simp add: m)
  have h: "href (nextUrl request)
        = protocol (nextUrl request) @ ''//'' @ host (nextUrl request)
            @ encode_path raw
            @ search (nextUrl request) @ hash (nextUrl request)"
    by (simp add: href_def assms(1))
  have l: "headers_get (headers (middleware request)) ''Location''
        = Some (protocol (nextUrl request) @ ''//'' @ host (nextUrl request)
                  @ redirect_pathname (encode_path raw)
                  @ search (nextUrl request) @ hash (nextUrl request))"
    by (simp add: m headers_get_def href_def redirect_pathname_stays_encoded)
  have r: "redirect_pathname (encode_path raw)
        = replace (encode_path raw) ''/self-tapping%20-screws'' ''/self-tapping-screws''"
    by (rule redirect_pathname_of_encoded)
  have f: "\<forall>x y. encode_path raw = x @ ''/self-tapping%20-screws'' @ y
            \<and> \<not> includes_str x ''/self-tapping%20-screws''
          \<longrightarrow> redirect_pathname (encode_path raw) = x @ ''/self-tapping-screws'' @ y"
  proof (intro allI impI, elim conjE)
    fix x y
    assume e: "encode_path raw = x @ ''/self-tapping%20-screws'' @ y"
      and n: "\<not> includes_str x ''/self-tapping%20-screws''"
    have "\<not> sublist ''/self-tapping -screws'' (x @ ''/self-tapping%20-screws'' @ y)"
      using encoded_excludes_space_variant [of raw] by (simp add: e includes_str_def)
    with n show "redirect_pathname (encode_path raw) = x @ ''/self-tapping-screws'' @ y"
      unfolding e includes_str_def by (rule redirect_pathname_encoded)
  qed
  have t: "\<forall>x y z V W. raw = x @ V @ y @ W @ z
            \<and> (V = ''/self-tapping -screws'' \<or> V = ''/self-tapping%20-screws'')
            \<and> (W = ''/self-tapping -screws'' \<or> W = ''/self-tapping%20-screws'')
          \<longrightarrow> includes_str (redirect_pathname (encode_path raw)) ''/self-tapping%20-screws''"
  proof (intro allI impI, elim conjE)
    fix x y z V W
    assume raw: "raw = x @ V @ y @ W @ z"
      and V: "V = ''/self-tapping -screws'' \<or> V = ''/self-tapping%20-screws''"
      and W: "W = ''/self-tapping -screws'' \<or> W = ''/self-tapping%20-screws''"
    have "encode_path raw
        = encode_path x @ ''/self-tapping%20-screws'' @ encode_path y
            @ ''/self-tapping%20-screws'' @ encode_path z"
      unfolding raw encoded_variant_present [OF V] encoded_variant_present [OF W] ..
    then show "includes_str (redirect_pathname (encode_path raw)) ''/self-tapping%20-screws''"
      unfolding includes_str_def by (simp only: redirect_pathname_keeps_second(2))
  qed
  show ?thesis
    using s h l r f t by (intro conjI)
qed

lemma twice_examples:
  "encode_path ''/self-tapping -screws/self-tapping -screws''
     = ''/self-tapping%20-screws/self-tapping%20-screws''"
  "encode_path ''/self-tapping%20-screws/self-tapping -screws''
     = ''/self-tapping%20-screws/self-tapping%20-screws''"
  "redirect_pathname ''/self-tapping%20-screws/self-tapping%20-screws''
     = ''/self-tapping-screws/self-tapping%20-screws''"
  "includes_str ''/self-tapping%20-screws/self-tapping%20-screws'' ''/self-tapping%20-screws''"
  by (code_simp, code_simp, code_simp, simp add: includes_str_def sublist_Cons_right)

theorem redirect_only_rewrites_first_occurrence_witness:
  "headers_get
     (headers (middleware (request_for ''/self-tapping -screws/self-tapping -screws'' ''?page=2'')))
     ''Location''
     = Some ''https://localhost:3000/self-tapping-screws/self-tapping%20-screws?page=2''
   \<and> headers_get
       (headers (middleware (request_for ''/self-tapping%20-screws/self-tapping -screws'' ''?page=2'')))
       ''Location''
     = Some ''https://localhost:3000/self-tapping-screws/self-tapping%20-screws?page=2''"
  using
    redirect_only_rewrites_first_occurrence
      [of "request_for ''/self-tapping -screws/self-tapping -screws'' ''?page=2''"
          "''/self-tapping -screws/self-tapping -screws''"]
    redirect_only_rewrites_first_occurrence
      [of "request_for ''/self-tapping%20-screws/self-tapping -screws'' ''?page=2''"
          "''/self-tapping%20-screws/self-tapping -screws''"]
    twice_examples
  by (simp add: request_for_def)

subsection \<open>The framework header configuration\<close>

lemma parse_sources:
  "parse (lexer ''/'') = [Text CHR ''/'']"
  "parse (lexer ''/blog/:path*'')
     = [Text CHR ''/'', Text CHR ''b'', Text CHR ''l'', Text CHR ''o'', Text CHR ''g'',
        Key ''/'' Segment ''*'']"
  "parse (lexer ''/products/:path*'')
     = [Text CHR ''/'', Text CHR ''p'', Text CHR ''r'', Text CHR ''o'', Text CHR ''d'',
        Text CHR ''u'', Text CHR ''c'', Text CHR ''t'', Text CHR ''s'', Key ''/'' Segment ''*'']"
  "parse (lexer ''/category/:path*'')
     = [Text CHR ''/'', Text CHR ''c'', Text CHR ''a'', Text CHR ''t'', Text CHR ''e'',
        Text CHR ''g'', Text CHR ''o'', Text CHR ''r'', Text CHR ''y'', Key ''/'' Segment ''*'']"
  "parse (lexer ''/:path*(css|jpg|jpeg|png|gif|ico|webp|svg|woff|woff2|ttf|otf)'')
     = [Key ''/'' Segment ''*'', Key [] (Alternatives static_extensions) []]"
  "parse (lexer ''/api/:path*'')
     = [Text CHR ''/'', Text CHR ''a'', Text CHR ''p'', Text CHR ''i'', Key ''/'' Segment ''*'']"
  "parse (lexer ''/:path*'') = [Key ''/'' Segment ''*'']"
  by code_simp+

lemma Text_match: "token_match (Text c) k (c # s) = k s"
  by (simp add: literal_match_def toLowerCase_def)

lemma Text_mismatch:
  "toLowerCase_char d \<noteq> toLowerCase_char c \<Longrightarrow> \<not> token_match (Text c) k (d # s)"
  by (simp add: literal_match_def toLowerCase_def)

lemma segment_match_append:
  "is_segment seg \<Longrightarrow> k t \<Longrightarrow> segment_match k (seg @ t)"
proof (induction seg)
  case Nil
  then show ?case by (simp add: is_segment_def)
next
  case (Cons c seg)
  show ?case
  proof (cases seg)
    case Nil
    with Cons.prems show ?thesis by (simp add: is_segment_def)
  next
    case (Cons d seg')
    with Cons.prems Cons.IH show ?thesis by (auto simp: is_segment_def)
  qed
qed

lemma slash_segment_unit:
  "is_segment seg \<Longrightarrow> k t \<Longrightarrow> key_unit ''/'' Segment k (CHR ''/'' # seg @ t)"
  by (simp add: key_unit_def literal_match_def pattern_match_def toLowerCase_def
      segment_match_append)

lemma repeat_match_done: "k s \<Longrightarrow> repeat_match n u k s"
  by (cases n) simp_all

lemma repeat_match_segments:
  "\<forall>seg\<in>set segs. is_segment seg \<Longrightarrow> length segs \<le> n \<Longrightarrow> k t
     \<Longrightarrow> repeat_match n (key_unit ''/'' Segment) k (path_of segs @ t)"
proof (induction segs arbitrary: n)
  case Nil
  then show ?case by (simp add: path_of_def repeat_match_done)
next
  case (Cons seg segs)
  then obtain m where n: "n = Suc m" and m: "length segs \<le> m"
    by (cases n) auto
  have "repeat_match m (key_unit ''/'' Segment) k (path_of segs @ t)"
    using Cons.IH [where n = m, OF _ m] Cons.prems(1,3) by simp
  then have "key_unit ''/'' Segment (repeat_match m (key_unit ''/'' Segment) k)
      (CHR ''/'' # seg @ path_of segs @ t)"
    using Cons.prems(1) by (intro slash_segment_unit) simp_all
  then show ?case
    by (simp add: n path_of_def)
qed

lemma length_path_of: "length segs \<le> length (path_of segs)"
  by (induction segs) (simp_all add: path_of_def)

lemma star_key_segments:
  assumes "\<forall>seg\<in>set segs. is_segment seg" "k t"
  shows "token_match (Key ''/'' Segment ''*'') k (path_of segs @ t)"
proof -
  have "length segs \<le> length (path_of segs @ t)"
    using length_path_of [of segs] by simp
  from repeat_match_segments [where k = k and t = t, OF assms(1) this assms(2)]
  show ?thesis by simp
qed

lemma route_end_simps: "route_end []" "route_end ''/''"
  by (simp_all add: route_end_def)

lemma route_tokens:
  "route_matches ''/'' p = foldr token_match [Text CHR ''/''] route_end p"
  "route_matches ''/blog/:path*'' p
     = foldr token_match
         [Text CHR ''/'', Text CHR ''b'', Text CHR ''l'', Text CHR ''o'', Text CHR ''g'',
          Key ''/'' Segment ''*''] route_end p"
  "route_matches ''/products/:path*'' p
     = foldr token_match
         [Text CHR ''/'', Text CHR ''p'', Text CHR ''r'', Text CHR ''o'', Text CHR ''d'',
          Text CHR ''u'', Text CHR ''c'', Text CHR ''t'', Text CHR ''s'', Key ''/'' Segment ''*'']
         route_end p"
  "route_matches ''/category/:path*'' p
     = foldr token_match
         [Text CHR ''/'', Text CHR ''c'', Text CHR ''a'', Text CHR ''t'', Text CHR ''e'',
          Text CHR ''g'', Text CHR ''o'', Text CHR ''r'', Text CHR ''y'', Key ''/'' Segment ''*'']
         route_end p"
  "route_matches ''/:path*(css|jpg|jpeg|png|gif|ico|webp|svg|woff|woff2|ttf|otf)'' p
     = foldr token_match [Key ''/'' Segment ''*'', Key [] (Alternatives static_extensions) []]
         route_end p"
  "route_matches ''/api/:path*'' p
     = foldr token_match
         [Text CHR ''/'', Text CHR ''a'', Text CHR ''p'', Text CHR ''i'', Key ''/'' Segment ''*'']
         route_end p"
  "route_matches ''/:path*'' p = foldr token_match [Key ''/'' Segment ''*''] route_end p"
  by (simp_all only: route_matches_def parse_sources)

lemma extension_alternative:
  assumes "ext \<in> set static_extensions"
  shows "token_match (Key [] (Alternatives static_extensions) []) route_end ext"
proof -
  have "literal_match ext route_end ext"
    by (simp add: literal_match_def route_end_def)
  with assms show ?thesis
    by (auto simp: key_unit_def pattern_match_def literal_match_def list_ex_iff)
qed

lemma static_rule_matches:
  assumes "\<forall>seg\<in>set segs. is_segment seg" "ext \<in> set static_extensions"
  shows "route_matches ''/:path*(css|jpg|jpeg|png|gif|ico|webp|svg|woff|woff2|ttf|otf)''
     (path_of segs @ ext)"
proof -
  have "token_match (Key ''/'' Segment ''*'')
      (token_match (Key [] (Alternatives static_extensions) []) route_end) (path_of segs @ ext)"
    using assms(1) extension_alternative [OF assms(2)] by (rule star_key_segments)
  then show ?thesis
    by (simp only: route_tokens foldr.simps o_apply id_apply)
qed

lemma fold_headers_set_get:
  "headers_get (fold (\<lambda>(name, v) h'. headers_set name v h') l h) name
     = (case map_of (rev (map (\<lambda>(n, v). (toLowerCase n, v)) l)) (toLowerCase name) of
          Some v \<Rightarrow> Some v
        | None \<Rightarrow> headers_get h name)"
proof (induction l arbitrary: h)
  case Nil
  then show ?case by simp
next
  case (Cons x l)
  obtain n v where x: "x = (n, v)" by (cases x)
  have "headers_get (fold (\<lambda>(name, v) h'. headers_set name v h') (x # l) h) name
      = headers_get (fold (\<lambda>(name, v) h'. headers_set name v h') l (headers_set n v h)) name"
    by (simp add: x)
  also have "\<dots> = (case map_of (rev (map (\<lambda>(n, v). (toLowerCase n, v)) l)) (toLowerCase name) of
          Some v \<Rightarrow> Some v
        | None \<Rightarrow> headers_get (headers_set n v h) name)"
    by (rule Cons.IH)
  also have "\<dots> = (case map_of (rev (map (\<lambda>(n, v). (toLowerCase n, v)) (x # l)))
                         (toLowerCase name) of
          Some v \<Rightarrow> Some v
        | None \<Rightarrow> headers_get h name)"
    by (simp add: x map_add_def headers_get_def headers_set_def split: option.splits)
  finally show ?case .
qed

lemma apply_rule_get:
  "headers_get (apply_rule p rule h) name
     = (if route_matches (source rule) p
        then (case map_of (rev (map (\<lambda>(n, v). (toLowerCase n, v)) (route_headers rule)))
                     (toLowerCase name) of
                Some v \<Rightarrow> Some v
              | None \<Rightarrow> headers_get h name)
        else headers_get h name)"
  by (simp add: apply_rule_def fold_headers_set_get)

lemma lower_header_names [simp]:
  "toLowerCase ''X-Content-Type-Options'' = ''x-content-type-options''"
  "toLowerCase ''X-DNS-Prefetch-Control'' = ''x-dns-prefetch-control''"
  "toLowerCase ''X-Frame-Options'' = ''x-frame-options''"
  "toLowerCase ''Referrer-Policy'' = ''referrer-policy''"
  "toLowerCase ''Permissions-Policy'' = ''permissions-policy''"
  by (simp_all add: toLowerCase_def toLowerCase_char_def)

lemma framework_api:
  assumes "route_matches ''/api/:path*'' p"
  shows "headers_get (framework_headers p) ''Cache-Control''
     = Some ''private, no-cache, no-store, must-revalidate''"
  using assms
  by (simp add: framework_headers_def nextConfig_headers_def apply_rule_get)

lemma framework_static:
  assumes "route_matches ''/:path*(css|jpg|jpeg|png|gif|ico|webp|svg|woff|woff2|ttf|otf)'' p"
  shows "headers_get (framework_headers p) ''Cache-Control''
     = (if route_matches ''/api/:path*'' p
        then Some ''private, no-cache, no-store, must-revalidate''
        else Some ''public, max-age=31536000, immutable'')"
  using assms
  by (simp add: framework_headers_def nextConfig_headers_def apply_rule_get)

lemma framework_category:
  assumes "route_matches ''/category/:path*'' p" "\<not> route_matches ''/api/:path*'' p"
  shows "headers_get (framework_headers p) ''Cache-Control''
     = (if route_matches ''/:path*(css|jpg|jpeg|png|gif|ico|webp|svg|woff|woff2|ttf|otf)'' p
        then Some ''public, max-age=31536000, immutable''
        else Some ''public, s-maxage=3600, stale-while-revalidate=86400, stale-if-error=604800'')"
  using assms
  by (simp add: framework_headers_def nextConfig_headers_def apply_rule_get)

lemma framework_global:
  assumes "route_matches ''/:path*'' p"
  shows "headers_get (framework_headers p) ''X-DNS-Prefetch-Control'' = Some ''on''"
    "headers_get (framework_headers p) ''X-Frame-Options'' = Some ''SAMEORIGIN''"
    "headers_get (framework_headers p) ''X-Content-Type-Options'' = Some ''nosniff''"
    "headers_get (framework_headers p) ''Referrer-Policy'' = Some ''origin-when-cross-origin''"
    "headers_get (framework_headers p) ''Permissions-Policy''
       = Some ''geolocation=(), microphone=(), camera=()''"
  using assms
  by (simp_all add: framework_headers_def nextConfig_headers_def apply_rule_get)

lemma api_rule_not_category:
  "\<not> route_matches ''/api/:path*'' (''/category'' @ rest)"
proof -
  have "toLowerCase_char CHR ''c'' \<noteq> toLowerCase_char CHR ''a''"
    by (simp add: toLowerCase_char_def)
  then have "\<not> token_match (Text CHR ''a'') k (CHR ''c'' # s)" for k s
    by (rule Text_mismatch)
  then show ?thesis
    by (simp only: route_tokens foldr.simps o_apply id_apply append.simps Text_match
        not_False_eq_True)
qed

lemma segment_match_suffix: "segment_match k s \<Longrightarrow> \<exists>t. suffix t s \<and> k t"
proof (induction s)
  case Nil
  then show ?case by simp
next
  case (Cons c s)
  then have "k s \<or> segment_match k s" by simp
  then show ?case
  proof
    assume "k s"
    then show ?thesis by (meson suffix_ConsI suffix_order.refl)
  next
    assume "segment_match k s"
    from Cons.IH [OF this] show ?thesis by (meson suffix_ConsI)
  qed
qed

lemma literal_match_suffix: "literal_match l k s \<Longrightarrow> \<exists>t. suffix t s \<and> k t"
  by (auto simp: literal_match_def intro: suffix_drop)

lemma pattern_match_Segment: "pattern_match Segment k = segment_match k"
  by (rule ext) (simp add: pattern_match_def)

lemma key_unit_suffix: "key_unit ''/'' Segment k s \<Longrightarrow> \<exists>t. suffix t s \<and> k t"
proof -
  assume "key_unit ''/'' Segment k s"
  then have "literal_match ''/'' (segment_match k) s"
    by (simp add: key_unit_def pattern_match_Segment)
  then obtain t where t: "suffix t s" "segment_match k t"
    using literal_match_suffix by blast
  from segment_match_suffix [OF t(2)] obtain t' where "suffix t' t" "k t'" by blast
  with t(1) show ?thesis by (meson suffix_order.trans)
qed

lemma repeat_match_suffix:
  "repeat_match n (key_unit ''/'' Segment) k s \<Longrightarrow> \<exists>t. suffix t s \<and> k t"
proof (induction n arbitrary: s)
  case 0
  then show ?case by auto
next
  case (Suc n)
  then have "k s \<or> key_unit ''/'' Segment (repeat_match n (key_unit ''/'' Segment) k) s"
    by simp
  then show ?case
  proof
    assume "k s"
    then show ?thesis by auto
  next
    assume "key_unit ''/'' Segment (repeat_match n (key_unit ''/'' Segment) k) s"
    from key_unit_suffix [OF this] obtain t where
      t: "suffix t s" "repeat_match n (key_unit ''/'' Segment) k t" by blast
    from Suc.IH [OF t(2)] obtain t' where "suffix t' t" "k t'" by blast
    with t(1) show ?thesis by (meson suffix_order.trans)
  qed
qed

lemma extensions_lower: "\<forall>e\<in>set static_extensions. toLowerCase e = e"
  by (simp add: static_extensions_def toLowerCase_def toLowerCase_char_def)

lemma static_rule_only_endings:
  assumes "route_matches ''/:path*(css|jpg|jpeg|png|gif|ico|webp|svg|woff|woff2|ttf|otf)'' p"
  shows "\<exists>e\<in>set static_extensions.
           suffix e (toLowerCase p) \<or> suffix (e @ ''/'') (toLowerCase p)"
proof -
  let ?k = "token_match (Key [] (Alternatives static_extensions) []) route_end"
  from assms have "repeat_match (length p) (key_unit ''/'' Segment) ?k p"
    by (simp only: route_tokens foldr.simps o_apply id_apply token_match.simps if_True)
  from repeat_match_suffix [OF this] obtain t where t: "suffix t p" "?k t" by blast
  from t(2) obtain e where e: "e \<in> set static_extensions" "literal_match e route_end t"
    by (auto simp: key_unit_def pattern_match_def literal_match_def list_ex_iff)
  then have le: "toLowerCase (take (length e) t) = e"
    and r: "drop (length e) t = [] \<or> drop (length e) t = ''/''"
    using extensions_lower by (auto simp: literal_match_def route_end_def)
  have "toLowerCase t = toLowerCase (take (length e) t) @ toLowerCase (drop (length e) t)"
    unfolding toLowerCase_def by (metis append_take_drop_id map_append)
  with le r have "toLowerCase t = e \<or> toLowerCase t = e @ ''/''"
    by (auto simp: toLowerCase_def toLowerCase_char_def)
  moreover have "suffix (toLowerCase t) (toLowerCase p)"
    unfolding toLowerCase_def using t(1) by (rule map_mono_suffix)
  ultimately show ?thesis using e(1) by auto
qed

lemma matcher_excludes_api:
  "startsWith q ''/api/'' \<Longrightarrow> \<not> matcher_matches q"
  by (auto simp: startsWith_def prefix_def matcher_matches_def matcher_lookahead_def)

lemma segments_of_path:
  "\<not> sublist ''//'' r \<Longrightarrow> r = [] \<or> hd r = CHR ''/''
     \<Longrightarrow> \<exists>segs slash. (\<forall>seg\<in>set segs. is_segment seg) \<and> (slash = [] \<or> slash = ''/'')
           \<and> r = path_of segs @ slash"
proof (induction r rule: length_induct)
  case (1 r)
  show ?case
  proof (cases r)
    case Nil
    then have "(\<forall>seg\<in>set []. is_segment seg) \<and> r = path_of [] @ []"
      by (simp add: path_of_def)
    then show ?thesis by blast
  next
    case (Cons c r')
    with "1.prems"(2) have c: "c = CHR ''/''" by simp
    let ?seg = "takeWhile (\<lambda>x. x \<noteq> CHR ''/'') r'"
    let ?rest = "dropWhile (\<lambda>x. x \<noteq> CHR ''/'') r'"
    have split: "r' = ?seg @ ?rest" by simp
    have rest: "?rest = [] \<or> hd ?rest = CHR ''/''"
      using hd_dropWhile [of "\<lambda>x. x \<noteq> CHR ''/''" r'] by auto
    show ?thesis
    proof (cases "?seg = []")
      case True
      with split have r': "r' = ?rest" by simp
      show ?thesis
      proof (cases r')
        case Nil
        with Cons c have "(\<forall>seg\<in>set []. is_segment seg) \<and> r = path_of [] @ ''/''"
          by (simp add: path_of_def)
        then show ?thesis by blast
      next
        case (Cons d r'')
        with rest r' have "d = CHR ''/''" by (metis list.sel(1) list.simps(3))
        with Cons \<open>r = c # r'\<close> c have "prefix ''//'' r" by simp
        then have "sublist ''//'' r" by (rule prefix_imp_sublist)
        with "1.prems"(1) show ?thesis by simp
      qed
    next
      case False
      have seg: "is_segment ?seg"
        using False by (auto simp: is_segment_def dest: set_takeWhileD)
      have "r = (c # ?seg) @ ?rest"
        using Cons split by simp
      then have "sublist ?rest r"
        by (metis append_Nil2 sublist_appendI)
      with "1.prems"(1) have no: "\<not> sublist ''//'' ?rest"
        by (meson sublist_order.order_trans)
      have "length ?rest < length r"
        using Cons by (simp add: less_Suc_eq_le length_dropWhile_le)
      with "1.IH" no rest obtain segs slash where
        s: "\<forall>seg\<in>set segs. is_segment seg" "slash = [] \<or> slash = ''/''"
          "?rest = path_of segs @ slash"
        by blast
      have "r = path_of (?seg # segs) @ slash"
        using Cons c split s(3) by (simp add: path_of_def)
      moreover have "\<forall>x\<in>set (?seg # segs). is_segment x"
        using seg s(1) by simp
      ultimately show ?thesis using s(2) by blast
    qed
  qed
qed

lemma star_key_path:
  assumes "\<not> sublist ''//'' r" "r = [] \<or> hd r = CHR ''/''"
  shows "token_match (Key ''/'' Segment ''*'') route_end r"
proof -
  from segments_of_path [OF assms] obtain segs slash where
    s: "\<forall>seg\<in>set segs. is_segment seg" "slash = [] \<or> slash = ''/''" "r = path_of segs @ slash"
    by blast
  from s(2) have "route_end slash" by (simp add: route_end_def)
  with s(1) have "token_match (Key ''/'' Segment ''*'') route_end (path_of segs @ slash)"
    by (rule star_key_segments)
  with s(3) show ?thesis by simp
qed

lemma suffix_no_double_slash:
  "\<not> includes_str (x @ r) ''//'' \<Longrightarrow> \<not> sublist ''//'' r"
  unfolding includes_str_def by (metis sublist_append)

lemma global_rule_matches:
  assumes "startsWith p ''/''" "\<not> includes_str p ''//''"
  shows "route_matches ''/:path*'' p"
proof -
  from assms(1) have "p = [] \<or> hd p = CHR ''/''"
    by (auto simp: startsWith_def prefix_def)
  moreover from assms(2) have "\<not> sublist ''//'' p"
    by (simp add: includes_str_def)
  ultimately have "token_match (Key ''/'' Segment ''*'') route_end p"
    by (intro star_key_path)
  then show ?thesis
    by (simp only: route_tokens foldr.simps o_apply id_apply)
qed

lemma api_rule_matches:
  assumes "startsWith p ''/api/''" "\<not> includes_str p ''//''"
  shows "route_matches ''/api/:path*'' p"
proof -
  from assms(1) obtain r where p: "p = ''/api'' @ (CHR ''/'' # r)"
    by (auto simp: startsWith_def prefix_def)
  with assms(2) have "\<not> sublist ''//'' (CHR ''/'' # r)"
    by (intro suffix_no_double_slash [of "''/api''"]) simp
  then have "token_match (Key ''/'' Segment ''*'') route_end (CHR ''/'' # r)"
    by (intro star_key_path) simp_all
  then show ?thesis
    unfolding p
    by (simp only: route_tokens foldr.simps o_apply id_apply append.simps Text_match)
qed

lemma category_rule_matches:
  assumes "p = ''/category'' \<or> startsWith p ''/category/''" "\<not> includes_str p ''//''"
  shows "route_matches ''/category/:path*'' p"
proof -
  from assms(1) obtain r where p: "p = ''/category'' @ r" and r: "r = [] \<or> hd r = CHR ''/''"
    by (auto simp: startsWith_def prefix_def)
  with assms(2) have "\<not> sublist ''//'' r"
    by (intro suffix_no_double_slash [of "''/category''"]) simp
  then have "token_match (Key ''/'' Segment ''*'') route_end r"
    using r by (intro star_key_path)
  then show ?thesis
    unfolding p
    by (simp only: route_tokens foldr.simps o_apply id_apply append.simps Text_match)
qed

lemma extension_of_split:
  assumes "extension_of p = ext" "ext \<noteq> []"
  shows "\<exists>w. p = w @ ''.'' @ ext"
proof -
  let ?name = "rev (takeWhile (\<lambda>c. c \<noteq> CHR ''/'') (rev p))"
  let ?dir = "rev (dropWhile (\<lambda>c. c \<noteq> CHR ''/'') (rev p))"
  have p: "p = ?dir @ ?name"
    by (metis rev_append rev_rev_ident takeWhile_dropWhile_id)
  from assms have dot: "CHR ''.'' \<in> set ?name"
    and ext: "ext = rev (takeWhile (\<lambda>c. c \<noteq> CHR ''.'') (rev ?name))"
    by (auto simp: extension_of_def Let_def split: if_splits)
  let ?tail = "dropWhile (\<lambda>c. c \<noteq> CHR ''.'') (rev ?name)"
  from dot have "?tail \<noteq> []" by (simp add: dropWhile_eq_Nil_conv)
  moreover from this have "hd ?tail = CHR ''.''"
    using hd_dropWhile [of "\<lambda>c. c \<noteq> CHR ''.''" "rev ?name"] by auto
  ultimately obtain t where t: "?tail = CHR ''.'' # t"
    by (cases ?tail) auto
  have "rev ?name = rev ext @ ?tail"
    unfolding ext by simp
  then have "?name = rev t @ ''.'' @ ext"
    unfolding t by (metis append.assoc append_Cons append_Nil rev.simps(2) rev_append rev_rev_ident)
  with p have "p = (?dir @ rev t) @ ''.'' @ ext" by simp
  then show ?thesis by blast
qed

lemma static_rule_matches_extension:
  assumes "startsWith p ''/''" "\<not> includes_str p ''//''"
    and "extension_of p \<in> set static_extensions"
  shows "route_matches ''/:path*(css|jpg|jpeg|png|gif|ico|webp|svg|woff|woff2|ttf|otf)'' p"
proof -
  let ?ext = "extension_of p"
  from assms(3) have "?ext \<noteq> []"
    by (auto simp: static_extensions_def)
  from extension_of_split [OF refl this] obtain w where p: "p = w @ ''.'' @ ?ext" by blast
  let ?q = "w @ ''.''"
  have pq: "p = ?q @ ?ext" using p by simp
  from assms(1) pq have hd: "hd ?q = CHR ''/''"
    by (cases w) (auto simp: startsWith_def prefix_def)
  have "sublist ?q p"
    using pq by (metis append_Nil sublist_appendI)
  with assms(2) have no: "\<not> sublist ''//'' ?q"
    unfolding includes_str_def by (meson sublist_order.order_trans)
  from segments_of_path [OF no] hd obtain segs slash where
    s: "\<forall>seg\<in>set segs. is_segment seg" "slash = [] \<or> slash = ''/''" "?q = path_of segs @ slash"
    by blast
  have "slash = []"
  proof (rule ccontr)
    assume "slash \<noteq> []"
    with s(2) have "slash = ''/''" by simp
    with s(3) have "last ?q = CHR ''/''" by simp
    then show False by simp
  qed
  with s(3) have "?q = path_of segs" by simp
  with static_rule_matches [OF s(1) assms(3)] pq show ?thesis by simp
qed

lemma middleware_category:
  assumes "startsWith (pathname (nextUrl request)) ''/category''"
    and "\<not> includes_str (pathname (nextUrl request)) ''/self-tapping -screws''"
    and "\<not> includes_str (pathname (nextUrl request)) ''/self-tapping%20-screws''"
  shows "headers_get (headers (middleware request)) ''Cache-Control''
     = Some ''public, s-maxage=1800, stale-while-revalidate=86400, stale-if-error=604800''"
  using passing_response_shape(3) [OF assms(2,3)] assms(1) path_classes_exclusive [of "pathname (nextUrl request)"]
  by auto

lemma route_examples:
  "\<not> route_matches ''/:path*(css|jpg|jpeg|png|gif|ico|webp|svg|woff|woff2|ttf|otf)'' ''/data.json''"
  "\<not> route_matches ''/:path*(css|jpg|jpeg|png|gif|ico|webp|svg|woff|woff2|ttf|otf)''
       ''/category/bolts''"
  "\<not> route_matches ''/api/:path*'' ''/assets/style.css''"
  "route_matches ''/:path*(css|jpg|jpeg|png|gif|ico|webp|svg|woff|woff2|ttf|otf)'' ''/main.scss''"
  by code_simp+

text \<open>
  C7, as amended. A request whose path begins with \<^verbatim>\<open>/api/\<close> is not matched by the
  middleware's matching expression, so the middleware does not run on it and assigns it
  no header; and the framework header configuration gives such a path the
  \<^verbatim>\<open>Cache-Control\<close> value \<^verbatim>\<open>private, no-cache, no-store, must-revalidate\<close> when the path
  has no empty segment, that is, no two slashes in a row.
\<close>

theorem api_paths_cache_control:
  assumes "startsWith (pathname (nextUrl request)) ''/api/''"
  shows "\<not> matcher_matches (pathname (nextUrl request))
    \<and> run_middleware request = None
    \<and> (\<not> includes_str (pathname (nextUrl request)) ''//''
        \<longrightarrow> headers_get (framework_headers (pathname (nextUrl request))) ''Cache-Control''
            = Some ''private, no-cache, no-store, must-revalidate'')"
proof -
  have m: "\<not> matcher_matches (pathname (nextUrl request))"
    using assms by (rule matcher_excludes_api)
  then have r: "run_middleware request = None"
    by (simp add: run_middleware_def)
  have f: "\<not> includes_str (pathname (nextUrl request)) ''//''
        \<longrightarrow> headers_get (framework_headers (pathname (nextUrl request))) ''Cache-Control''
            = Some ''private, no-cache, no-store, must-revalidate''"
    using assms by (intro impI framework_api api_rule_matches)
  show ?thesis
    using m r f by (intro conjI)
qed

lemma api_examples:
  "encode_path ''/api/products/42'' = ''/api/products/42''"
  "encode_path ''/api/'' = ''/api/''"
  "startsWith ''/api/products/42'' ''/api/''"
  "startsWith ''/api/'' ''/api/''"
  "\<not> includes_str ''/api/products/42'' ''//''"
  "\<not> includes_str ''/api/'' ''//''"
  by (code_simp, code_simp, simp_all add: startsWith_def includes_str_def sublist_Cons_right)

theorem api_paths_cache_control_witness:
  "run_middleware (request_for ''/api/products/42'' ''?page=2'') = None
   \<and> headers_get (framework_headers ''/api/products/42'') ''Cache-Control''
       = Some ''private, no-cache, no-store, must-revalidate''
   \<and> run_middleware (request_for ''/api/'' []) = None
   \<and> headers_get (framework_headers ''/api/'') ''Cache-Control''
       = Some ''private, no-cache, no-store, must-revalidate''"
  using api_paths_cache_control [of "request_for ''/api/products/42'' ''?page=2''"]
    api_paths_cache_control [of "request_for ''/api/'' []"]
    api_examples
  by (simp add: request_for_def)

text \<open>
  The path \<^verbatim>\<open>/api//x\<close> begins with \<^verbatim>\<open>/api/\<close>, and the configuration gives it no
  \<^verbatim>\<open>Cache-Control\<close>: the rule \<^verbatim>\<open>/api/:path*\<close> matches segments that are not empty, and no
  other rule matches the path either.
\<close>

theorem api_path_with_empty_segment:
  "startsWith ''/api//x'' ''/api/''
   \<and> headers_get (framework_headers ''/api//x'') ''Cache-Control'' = None"
  by code_simp

text \<open>
  C3, as amended. The route rules of the framework header configuration are the listed
  patterns with exactly the listed header values, the rule \<^verbatim>\<open>/category/:path*\<close> with the
  3600-second directive; it matches the paths under \<^verbatim>\<open>/category\<close>, to which the
  middleware gives 1800 seconds. A path without empty segment whose extension is one of
  css, jpg, jpeg, png, gif, ico, webp, svg, woff, woff2, ttf, otf matches the static-asset
  rule and gets \<^verbatim>\<open>public, max-age=31536000, immutable\<close>, unless the rule \<^verbatim>\<open>/api/:path*\<close>
  matches it too, whose value then wins. A path matches the static-asset rule only if it
  ends in one of these twelve words, the case of letters and one trailing slash apart, so
  \<^verbatim>\<open>/data.json\<close> does not match it. And every path that begins with a slash and has no
  empty segment gets the five global security headers.
\<close>

theorem framework_route_rules:
  assumes "startsWith p ''/''" and "\<not> includes_str p ''//''"
  shows "map (\<lambda>r. (source r, route_headers r)) nextConfig_headers = spec_route_rules
    \<and> (p = ''/category'' \<or> startsWith p ''/category/''
        \<longrightarrow> route_matches ''/category/:path*'' p
          \<and> headers_get (framework_headers p) ''Cache-Control''
              = (if route_matches ''/:path*(css|jpg|jpeg|png|gif|ico|webp|svg|woff|woff2|ttf|otf)'' p
                 then Some ''public, max-age=31536000, immutable''
                 else Some ''public, s-maxage=3600, stale-while-revalidate=86400, stale-if-error=604800'')
          \<and> (\<forall>request. pathname (nextUrl request) = p
                \<and> \<not> includes_str p ''/self-tapping -screws''
                \<and> \<not> includes_str p ''/self-tapping%20-screws''
              \<longrightarrow> headers_get (headers (middleware request)) ''Cache-Control''
                  = Some ''public, s-maxage=1800, stale-while-revalidate=86400, stale-if-error=604800''))
    \<and> (extension_of p \<in> set static_extensions
        \<longrightarrow> route_matches ''/:path*(css|jpg|jpeg|png|gif|ico|webp|svg|woff|woff2|ttf|otf)'' p
          \<and> headers_get (framework_headers p) ''Cache-Control''
              = (if route_matches ''/api/:path*'' p
                 then Some ''private, no-cache, no-store, must-revalidate''
                 else Some ''public, max-age=31536000, immutable''))
    \<and> (\<forall>q. route_matches ''/:path*(css|jpg|jpeg|png|gif|ico|webp|svg|woff|woff2|ttf|otf)'' q
          \<longrightarrow> (\<exists>e\<in>set static_extensions.
                 suffix e (toLowerCase q) \<or> suffix (e @ ''/'') (toLowerCase q)))
    \<and> \<not> route_matches ''/:path*(css|jpg|jpeg|png|gif|ico|webp|svg|woff|woff2|ttf|otf)''
          ''/data.json''
    \<and> (\<forall>(name, v)\<in>set [(''X-DNS-Prefetch-Control'', ''on''),
                          (''X-Frame-Options'', ''SAMEORIGIN''),
                          (''X-Content-Type-Options'', ''nosniff''),
                          (''Referrer-Policy'', ''origin-when-cross-origin''),
                          (''Permissions-Policy'', ''geolocation=(), microphone=(), camera=()'')].
          headers_get (framework_headers p) name = Some v)"
proof -
  let ?static = "''/:path*(css|jpg|jpeg|png|gif|ico|webp|svg|woff|woff2|ttf|otf)''"
  have table: "map (\<lambda>r. (source r, route_headers r)) nextConfig_headers = spec_route_rules"
    by (simp add: nextConfig_headers_def spec_route_rules_def)
  have c: "p = ''/category'' \<or> startsWith p ''/category/''
        \<longrightarrow> route_matches ''/category/:path*'' p
          \<and> headers_get (framework_headers p) ''Cache-Control''
              = (if route_matches ?static p
                 then Some ''public, max-age=31536000, immutable''
                 else Some ''public, s-maxage=3600, stale-while-revalidate=86400, stale-if-error=604800'')
          \<and> (\<forall>request. pathname (nextUrl request) = p
                \<and> \<not> includes_str p ''/self-tapping -screws''
                \<and> \<not> includes_str p ''/self-tapping%20-screws''
              \<longrightarrow> headers_get (headers (middleware request)) ''Cache-Control''
                  = Some ''public, s-maxage=1800, stale-while-revalidate=86400, stale-if-error=604800'')"
  proof
    assume a: "p = ''/category'' \<or> startsWith p ''/category/''"
    then obtain rest where rest: "p = ''/category'' @ rest"
      by (auto simp: startsWith_def prefix_def)
    have c1: "route_matches ''/category/:path*'' p"
      using a assms(2) by (rule category_rule_matches)
    have "\<not> route_matches ''/api/:path*'' p"
      unfolding rest by (rule api_rule_not_category)
    with c1 have c2: "headers_get (framework_headers p) ''Cache-Control''
              = (if route_matches ?static p
                 then Some ''public, max-age=31536000, immutable''
                 else Some ''public, s-maxage=3600, stale-while-revalidate=86400, stale-if-error=604800'')"
      by (rule framework_category)
    have s: "startsWith p ''/category''"
      by (simp add: rest startsWith_def)
    have c3: "\<forall>request. pathname (nextUrl request) = p
                \<and> \<not> includes_str p ''/self-tapping -screws''
                \<and> \<not> includes_str p ''/self-tapping%20-screws''
              \<longrightarrow> headers_get (headers (middleware request)) ''Cache-Control''
                  = Some ''public, s-maxage=1800, stale-while-revalidate=86400, stale-if-error=604800''"
      using middleware_category s by blast
    show "route_matches ''/category/:path*'' p
          \<and> headers_get (framework_headers p) ''Cache-Control''
              = (if route_matches ?static p
                 then Some ''public, max-age=31536000, immutable''
                 else Some ''public, s-maxage=3600, stale-while-revalidate=86400, stale-if-error=604800'')
          \<and> (\<forall>request. pathname (nextUrl request) = p
                \<and> \<not> includes_str p ''/self-tapping -screws''
                \<and> \<not> includes_str p ''/self-tapping%20-screws''
              \<longrightarrow> headers_get (headers (middleware request)) ''Cache-Control''
                  = Some ''public, s-maxage=1800, stale-while-revalidate=86400, stale-if-error=604800'')"
      using c1 c2 c3 by (intro conjI)
  qed
  have s: "extension_of p \<in> set static_extensions
        \<longrightarrow> route_matches ?static p
          \<and> headers_get (framework_headers p) ''Cache-Control''
              = (if route_matches ''/api/:path*'' p
                 then Some ''private, no-cache, no-store, must-revalidate''
                 else Some ''public, max-age=31536000, immutable'')"
  proof
    assume "extension_of p \<in> set static_extensions"
    with assms have s1: "route_matches ?static p"
      by (rule static_rule_matches_extension)
    then have "headers_get (framework_headers p) ''Cache-Control''
              = (if route_matches ''/api/:path*'' p
                 then Some ''private, no-cache, no-store, must-revalidate''
                 else Some ''public, max-age=31536000, immutable'')"
      by (rule framework_static)
    with s1 show "route_matches ?static p
          \<and> headers_get (framework_headers p) ''Cache-Control''
              = (if route_matches ''/api/:path*'' p
                 then Some ''private, no-cache, no-store, must-revalidate''
                 else Some ''public, max-age=31536000, immutable'')"
      by (intro conjI)
  qed
  have n: "\<forall>q. route_matches ?static q
          \<longrightarrow> (\<exists>e\<in>set static_extensions.
                 suffix e (toLowerCase q) \<or> suffix (e @ ''/'') (toLowerCase q))"
    using static_rule_only_endings by blast
  have g: "\<forall>(name, v)\<in>set [(''X-DNS-Prefetch-Control'', ''on''),
                          (''X-Frame-Options'', ''SAMEORIGIN''),
                          (''X-Content-Type-Options'', ''nosniff''),
                          (''Referrer-Policy'', ''origin-when-cross-origin''),
                          (''Permissions-Policy'', ''geolocation=(), microphone=(), camera=()'')].
          headers_get (framework_headers p) name = Some v"
    using framework_global [OF global_rule_matches [OF assms]] by simp
  show ?thesis
    using table c s n route_examples(1) g by (intro conjI)
qed

lemma path_examples:
  "startsWith ''/assets/style.css'' ''/''" "\<not> includes_str ''/assets/style.css'' ''//''"
  "extension_of ''/assets/style.css'' = ''css''"
  "startsWith ''/category/bolts'' ''/''" "\<not> includes_str ''/category/bolts'' ''//''"
  "startsWith ''/category/bolts'' ''/category/''"
  "startsWith ''/about/'' ''/''" "\<not> includes_str ''/about/'' ''//''"
  by (simp_all add: startsWith_def includes_str_def sublist_Cons_right extension_of_def)

theorem framework_route_rules_witness:
  "route_matches ''/:path*(css|jpg|jpeg|png|gif|ico|webp|svg|woff|woff2|ttf|otf)''
     ''/assets/style.css''
   \<and> headers_get (framework_headers ''/assets/style.css'') ''Cache-Control''
       = Some ''public, max-age=31536000, immutable''
   \<and> headers_get (framework_headers ''/category/bolts'') ''Cache-Control''
       = Some ''public, s-maxage=3600, stale-while-revalidate=86400, stale-if-error=604800''
   \<and> headers_get (framework_headers ''/about/'') ''X-Frame-Options'' = Some ''SAMEORIGIN''"
  using
    framework_route_rules [of "''/assets/style.css''"]
    framework_route_rules [of "''/category/bolts''"]
    framework_route_rules [of "''/about/''"]
    path_examples route_examples
  by (simp add: static_extensions_def)

text \<open>
  Three paths at which the unqualified statement fails. The path \<^verbatim>\<open>/api/logo.png\<close> has the extension
  \<^verbatim>\<open>png\<close> of the set and gets the value of the later \<^verbatim>\<open>/api\<close> rule; the paths \<^verbatim>\<open>/a//b\<close>
  and \<^verbatim>\<open>/a//logo.png\<close> have an empty segment and match no rule, so they get neither the
  global security headers nor the static-asset directive.
\<close>

theorem framework_rules_not_for_every_path:
  "extension_of ''/api/logo.png'' = ''png''
   \<and> ''png'' \<in> set static_extensions
   \<and> headers_get (framework_headers ''/api/logo.png'') ''Cache-Control''
       = Some ''private, no-cache, no-store, must-revalidate''
   \<and> headers_get (framework_headers ''/a//b'') ''X-Frame-Options'' = None
   \<and> extension_of ''/a//logo.png'' = ''png''
   \<and> headers_get (framework_headers ''/a//logo.png'') ''Cache-Control'' = None"
  by code_simp

text \<open>
  The static-asset pattern has no dot before its group of words, so it also matches a
  path whose extension is not in the set but ends in one of the words.
\<close>

lemma static_rule_without_dot:
  "extension_of ''/main.scss'' = ''scss''
   \<and> ''scss'' \<notin> set static_extensions
   \<and> route_matches ''/:path*(css|jpg|jpeg|png|gif|ico|webp|svg|woff|woff2|ttf|otf)''
        ''/main.scss''"
  by code_simp

end
